theory Spec2Isabelle
  imports Main "HOL-Library.Char_ord" "HOL-Library.List_Lexorder" "HOL-Library.Multiset"
    "HOL-Library.Word" "HOL-Library.Sublist"
begin

chapter \<open>Hyperparameters.py: a shallow embedding\<close>

text \<open>
  The development follows \<^verbatim>\<open>src/Hyperparameters.py\<close>. Python strings are modelled by
  their UTF-8 bytes (\<^typ>\<open>string\<close>): comparing byte lists lexicographically is comparing
  code points, \<^verbatim>\<open>':' in key\<close> and \<^verbatim>\<open>key.index(':')\<close> look for an ASCII byte, and
  \<^verbatim>\<open>s.encode('utf-8')\<close> gives the bytes themselves (in Python 3; \<open>encode_utf8\<close> below says
  what Python 2 does).
\<close>

section \<open>Values and dicts\<close>

text \<open>
  A hyperparameter value is \<^verbatim>\<open>None\<close>, a \<^verbatim>\<open>bool\<close>, an \<^verbatim>\<open>int\<close>, a \<^verbatim>\<open>str\<close>, a
  one-dimensional integer \<^verbatim>\<open>numpy\<close> array or a \<^verbatim>\<open>dict\<close> with string keys. A \<^verbatim>\<open>dict\<close> is
  the list of its items in iteration order; its keys are distinct (\<open>wf_dict\<close>). Python
  floats are not modelled.
\<close>

datatype pyval =
    VNone
  | VBool bool
  | VInt int
  | VStr string
  | VArr "int list"
  | VDict "(string \<times> pyval) list"

type_synonym dict = "(string \<times> pyval) list"

text \<open>\<^verbatim>\<open>key in d\<close>, \<^verbatim>\<open>d[key]\<close> (as an option: \<open>None\<close> is Python's \<^verbatim>\<open>KeyError\<close>) and
  \<^verbatim>\<open>d.keys()\<close>.\<close>

definition dict_contains :: "dict \<Rightarrow> string \<Rightarrow> bool" where
  "dict_contains d k = (k \<in> set (map fst d))"

definition dict_get :: "dict \<Rightarrow> string \<Rightarrow> pyval option" where
  "dict_get d k = map_of d k"

definition dict_keys :: "dict \<Rightarrow> string list" where
  "dict_keys d = map fst d"

text \<open>\<^verbatim>\<open>d[key] = val\<close>: an existing key keeps its place in the iteration order, a new key
  goes to the end.\<close>

fun dict_setitem :: "dict \<Rightarrow> string \<Rightarrow> pyval \<Rightarrow> dict" where
  "dict_setitem [] k v = [(k, v)]"
| "dict_setitem ((k', v') # d) k v =
     (if k' = k then (k, v) # d else (k', v') # dict_setitem d k v)"

text \<open>\<^verbatim>\<open>d.update(e)\<close>: every item of \<^verbatim>\<open>e\<close>, in its order, is assigned into \<^verbatim>\<open>d\<close>.\<close>

fun dict_update :: "dict \<Rightarrow> dict \<Rightarrow> dict" where
  "dict_update d [] = d"
| "dict_update d ((k, v) # e) = dict_update (dict_setitem d k v) e"

text \<open>Distinct keys at every level: what every Python dict satisfies.\<close>

fun wf_val :: "pyval \<Rightarrow> bool" where
  "wf_val (VDict d) = (distinct (map fst d) \<and> list_all (\<lambda>kv. wf_val (snd kv)) d)"
| "wf_val _ = True"

definition wf_dict :: "dict \<Rightarrow> bool" where
  "wf_dict d = wf_val (VDict d)"

section \<open>Exceptions\<close>

datatype error =
    ValueError string
  | KeyError string
  | UnicodeDecodeError
  | AttributeError
  | TypeError
  | IndexError
  | ArgumentTypeError

unbundle bit_operations_syntax

section \<open>SHA-512 (\<^verbatim>\<open>hashlib.new('sha512')\<close>)\<close>

text \<open>
  The hash function of the standard library, after FIPS 180-4: the message is padded to
  a multiple of 128 bytes, cut into blocks of sixteen 64-bit words, and every block is
  compressed into the state of eight 64-bit words in eighty rounds. The digest is the
  final state in hexadecimal, sixteen digits for each word.
\<close>

type_synonym w64 = "64 word"

definition sha512_K :: "w64 list" where
  "sha512_K = [
     4794697086780616226, 8158064640168781261, 13096744586834688815, 16840607885511220156,
     4131703408338449720, 6480981068601479193, 10538285296894168987, 12329834152419229976,
     15566598209576043074, 1334009975649890238, 2608012711638119052, 6128411473006802146,
     8268148722764581231, 9286055187155687089, 11230858885718282805, 13951009754708518548,
     16472876342353939154, 17275323862435702243, 1135362057144423861, 2597628984639134821,
     3308224258029322869, 5365058923640841347, 6679025012923562964, 8573033837759648693,
     10970295158949994411, 12119686244451234320, 12683024718118986047, 13788192230050041572,
     14330467153632333762, 15395433587784984357, 489312712824947311, 1452737877330783856,
     2861767655752347644, 3322285676063803686, 5560940570517711597, 5996557281743188959,
     7280758554555802590, 8532644243296465576, 9350256976987008742, 10552545826968843579,
     11727347734174303076, 12113106623233404929, 14000437183269869457, 14369950271660146224,
     15101387698204529176, 15463397548674623760, 17586052441742319658, 1182934255886127544,
     1847814050463011016, 2177327727835720531, 2830643537854262169, 3796741975233480872,
     4115178125766777443, 5681478168544905931, 6601373596472566643, 7507060721942968483,
     8399075790359081724, 8693463985226723168, 9568029438360202098, 10144078919501101548,
     10430055236837252648, 11840083180663258601, 13761210420658862357, 14299343276471374635,
     14566680578165727644, 15097957966210449927, 16922976911328602910, 17689382322260857208,
     500013540394364858, 748580250866718886, 1242879168328830382, 1977374033974150939,
     2944078676154940804, 3659926193048069267, 4368137639120453308, 4836135668995329356,
     5532061633213252278, 6448918945643986474, 6902733635092675308, 7801388544844847127]"

definition sha512_H0 :: "w64 list" where
  "sha512_H0 = [
     7640891576956012808, 13503953896175478587, 4354685564936845355, 11912009170470909681,
     5840696475078001361, 11170449401992604703, 2270897969802886507, 6620516959819538809]"

definition rotr :: "nat \<Rightarrow> w64 \<Rightarrow> w64" where
  "rotr n x = drop_bit n x OR push_bit (64 - n) x"

definition sha_pad :: "string \<Rightarrow> w64 list" where
  "sha_pad m =
     (let l = length m in
      map of_char m @ [128] @ replicate ((239 - l mod 128) mod 128) 0 @
      map (\<lambda>i. of_int ((8 * int l) div 256 ^ i mod 256)) (rev [0..<16]))"

definition be64 :: "w64 list \<Rightarrow> w64" where
  "be64 bs = foldl (\<lambda>a b. push_bit 8 a OR b) 0 bs"

definition sha_blocks :: "w64 list \<Rightarrow> w64 list list" where
  "sha_blocks bs =
     map (\<lambda>i. map (\<lambda>j. be64 (take 8 (drop (128 * i + 8 * j) bs))) [0..<16])
       [0..<length bs div 128]"

definition small_sigma0 :: "w64 \<Rightarrow> w64" where
  "small_sigma0 x = rotr 1 x XOR rotr 8 x XOR drop_bit 7 x"

definition small_sigma1 :: "w64 \<Rightarrow> w64" where
  "small_sigma1 x = rotr 19 x XOR rotr 61 x XOR drop_bit 6 x"

definition big_sigma0 :: "w64 \<Rightarrow> w64" where
  "big_sigma0 x = rotr 28 x XOR rotr 34 x XOR rotr 39 x"

definition big_sigma1 :: "w64 \<Rightarrow> w64" where
  "big_sigma1 x = rotr 14 x XOR rotr 18 x XOR rotr 41 x"

definition sha_schedule :: "w64 list \<Rightarrow> w64 list" where
  "sha_schedule block =
     fold (\<lambda>t w. w @ [w ! (t - 16) + small_sigma0 (w ! (t - 15)) + w ! (t - 7) +
                         small_sigma1 (w ! (t - 2))]) [16..<80] block"

type_synonym sha_state = "w64 \<times> w64 \<times> w64 \<times> w64 \<times> w64 \<times> w64 \<times> w64 \<times> w64"

fun sha_round :: "w64 \<times> w64 \<Rightarrow> sha_state \<Rightarrow> sha_state" where
  "sha_round (k, w) (a, b, c, d, e, f, g, h) =
     (let t1 = h + big_sigma1 e + ((e AND f) XOR (NOT e AND g)) + k + w;
          t2 = big_sigma0 a + ((a AND b) XOR (a AND c) XOR (b AND c))
      in (t1 + t2, a, b, c, d + t1, e, f, g))"

fun sha_add :: "sha_state \<Rightarrow> sha_state \<Rightarrow> sha_state" where
  "sha_add (a, b, c, d, e, f, g, h) (a', b', c', d', e', f', g', h') =
     (a + a', b + b', c + c', d + d', e + e', f + f', g + g', h + h')"

definition sha_compress :: "w64 list \<Rightarrow> sha_state \<Rightarrow> sha_state" where
  "sha_compress block s = sha_add s (fold sha_round (zip sha512_K (sha_schedule block)) s)"

definition hex_digit :: "nat \<Rightarrow> char" where
  "hex_digit n = ''0123456789abcdef'' ! (n mod 16)"

definition hex64 :: "w64 \<Rightarrow> string" where
  "hex64 x = map (\<lambda>i. hex_digit (unat (drop_bit (4 * i) x AND 15))) (rev [0..<16])"

fun sha_hex :: "sha_state \<Rightarrow> string" where
  "sha_hex (a, b, c, d, e, f, g, h) =
     hex64 a @ hex64 b @ hex64 c @ hex64 d @ hex64 e @ hex64 f @ hex64 g @ hex64 h"

definition sha512_hexdigest :: "string \<Rightarrow> string" where
  "sha512_hexdigest m =
     sha_hex (fold sha_compress (sha_blocks (sha_pad m))
       (sha512_H0 ! 0, sha512_H0 ! 1, sha512_H0 ! 2, sha512_H0 ! 3,
        sha512_H0 ! 4, sha512_H0 ! 5, sha512_H0 ! 6, sha512_H0 ! 7))"

section \<open>The canonical string: \<^verbatim>\<open>_sorted_str_from_dict\<close>\<close>

definition digit_chars :: string where
  "digit_chars = ''0123456789''"

function str_nat :: "nat \<Rightarrow> string" where
  "str_nat n = (if n < 10 then [digit_chars ! n] else str_nat (n div 10) @ [digit_chars ! (n mod 10)])"
  by pat_completeness auto
termination
  by (relation "measure id") auto

declare str_nat.simps [simp del]

definition str_int :: "int \<Rightarrow> string" where
  "str_int i = (if i < 0 then CHR ''-'' # str_nat (nat (- i)) else str_nat (nat i))"

lemma size_dict_get:
  "dict_get d key = Some val \<Longrightarrow> size val < size (VDict d)"
  unfolding dict_get_def
  by (induction d) (auto split: if_splits)

text \<open>
  \<^verbatim>\<open>sort(list(d.keys()))\<close> is \<^verbatim>\<open>numpy.sort\<close>: the keys become an array of fixed-width strings,
  which drops the NUL characters at the end of a key, and are sorted by code points.
\<close>

definition numpy_str :: "string \<Rightarrow> string" where
  "numpy_str key = rev (dropWhile (\<lambda>c. c = CHR 0x00) (rev key))"

definition numpy_sort :: "string list \<Rightarrow> string list" where
  "numpy_sort keys = sort (map numpy_str keys)"

text \<open>\<^verbatim>\<open>''.join(str_items)\<close> for the items of the loop, up to the first exception.\<close>

fun join_items :: "(error + string) list \<Rightarrow> error + string" where
  "join_items [] = Inr []"
| "join_items (Inl e # items) = Inl e"
| "join_items (Inr s # items) =
     (case join_items items of Inl e \<Rightarrow> Inl e | Inr t \<Rightarrow> Inr (s @ t))"

text \<open>
  \<^verbatim>\<open>_sorted_str_from_dict\<close>. \<^verbatim>\<open>d[key]\<close> raises \<^verbatim>\<open>KeyError\<close> for a key that \<^verbatim>\<open>numpy.sort\<close> has
  shortened. \<^verbatim>\<open>str(val)\<close> of an array is \<^verbatim>\<open>numpy\<close>'s: it is the parameter \<open>array_str\<close>.
\<close>

function sorted_str_from_dict :: "(int list \<Rightarrow> string) \<Rightarrow> dict \<Rightarrow> error + string" where
  "sorted_str_from_dict array_str d =
     (let sorted_keys = numpy_sort (dict_keys d);
          n_keys = length sorted_keys
      in case join_items (map (\<lambda>(key_idx, key).
             case dict_get d key of
               None \<Rightarrow> Inl (KeyError key)
             | Some val \<Rightarrow>
                 (case (case val of
                          VDict sub \<Rightarrow> sorted_str_from_dict array_str sub
                        | VNone \<Rightarrow> Inr ''None''
                        | VBool b \<Rightarrow> Inr (if b then ''True'' else ''False'')
                        | VInt i \<Rightarrow> Inr (str_int i)
                        | VStr s \<Rightarrow> Inr s
                        | VArr xs \<Rightarrow> Inr (array_str xs)) of
                    Inl e \<Rightarrow> Inl e
                  | Inr str_val \<Rightarrow>
                      Inr (key @ '': '' @ str_val @ (if key_idx < n_keys then '', '' else []))))
           (zip [1..<Suc n_keys] sorted_keys)) of
           Inl e \<Rightarrow> Inl e
         | Inr items \<Rightarrow> Inr (''{'' @ items @ ''}''))"
  by pat_completeness auto
termination
  by (relation "measure (\<lambda>(array_str, d). size (VDict d))") (auto dest: size_dict_get)

declare sorted_str_from_dict.simps [simp del]

section \<open>Comparisons: \<^verbatim>\<open>val == 'None'\<close> and \<^verbatim>\<open>np.all(val != default_hps[key])\<close>\<close>

text \<open>
  What \<^verbatim>\<open>==\<close> and \<^verbatim>\<open>!=\<close> give for an array depends on the version of \<^verbatim>\<open>numpy\<close>, which is a
  parameter (major, minor) of the model, taken to be at least 1.13:
  \<^item> two arrays, or an array and an \<^verbatim>\<open>int\<close> or \<^verbatim>\<open>bool\<close> (within the range of the array's
    element type), are compared element by element, an array of one element being
    stretched; two arrays whose lengths do not fit raise \<^verbatim>\<open>ValueError\<close> from 1.25 on, and
    before are unequal as a whole (with a warning);
  \<^item> an array and a string are unequal in every element from 1.25 on, and before unequal as
    a whole (with a warning); an array and \<^verbatim>\<open>None\<close> or a dict are unequal in every element;
  \<^item> where Python asks for the truth value of the result (\<^verbatim>\<open>if val == 'None'\<close>, and the
    values of two dicts that are compared), an array of two or more elements raises
    \<^verbatim>\<open>ValueError\<close>, and an empty one is false with a warning, and raises from 2.2 on.
  Two objects that are compared are taken to be different objects (Python does not
  compare an object with itself when it compares the values of two dicts).
\<close>

type_synonym version = "nat \<times> nat"

definition version_ge :: "version \<Rightarrow> version \<Rightarrow> bool" where
  "version_ge v w = (fst w < fst v \<or> (fst v = fst w \<and> snd w \<le> snd v))"

datatype cmp = Scalar bool | Elems "bool list"

fun elementwise_eq :: "version \<Rightarrow> int list \<Rightarrow> pyval \<Rightarrow> error + cmp" where
  "elementwise_eq numpy xs (VArr ys) =
     (if length xs = length ys then Inr (Elems (map2 (\<lambda>x y. x = y) xs ys))
      else if length ys = 1 then Inr (Elems (map (\<lambda>x. x = hd ys) xs))
      else if length xs = 1 then Inr (Elems (map (\<lambda>y. hd xs = y) ys))
      else if version_ge numpy (1, 25)
        then Inl (ValueError ''operands could not be broadcast together'')
      else Inr (Scalar False))"
| "elementwise_eq numpy xs (VInt j) = Inr (Elems (map (\<lambda>x. x = j) xs))"
| "elementwise_eq numpy xs (VBool b) = Inr (Elems (map (\<lambda>x. x = (if b then 1 else 0)) xs))"
| "elementwise_eq numpy xs (VStr s) =
     Inr (if version_ge numpy (1, 25) then Elems (map (\<lambda>x. False) xs) else Scalar False)"
| "elementwise_eq numpy xs VNone = Inr (Elems (map (\<lambda>x. False) xs))"
| "elementwise_eq numpy xs (VDict d) = Inr (Elems (map (\<lambda>x. False) xs))"

text \<open>The truth value of the result of a comparison.\<close>

fun truth :: "version \<Rightarrow> cmp \<Rightarrow> error + bool" where
  "truth numpy (Scalar b) = Inr b"
| "truth numpy (Elems []) =
     (if version_ge numpy (2, 2) then Inl (ValueError ''The truth value of an empty array is ambiguous'')
      else Inr False)"
| "truth numpy (Elems [b]) = Inr b"
| "truth numpy (Elems (b # c # bs)) =
     Inl (ValueError ''The truth value of an array with more than one element is ambiguous'')"

text \<open>
  \<^verbatim>\<open>a == b\<close> where Python needs a \<^verbatim>\<open>bool\<close>. Two dicts are equal when they have as many items
  and every value of the first equals the value the second has at its key; the values
  are compared in the order of the first dict, up to the first that differs or raises.
\<close>

fun py_eq :: "version \<Rightarrow> pyval \<Rightarrow> pyval \<Rightarrow> error + bool"
  and dict_equal :: "version \<Rightarrow> dict \<Rightarrow> dict \<Rightarrow> error + bool" where
  "py_eq numpy (VArr xs) b =
     (case elementwise_eq numpy xs b of Inl e \<Rightarrow> Inl e | Inr c \<Rightarrow> truth numpy c)"
| "py_eq numpy a (VArr ys) =
     (case elementwise_eq numpy ys a of Inl e \<Rightarrow> Inl e | Inr c \<Rightarrow> truth numpy c)"
| "py_eq numpy VNone VNone = Inr True"
| "py_eq numpy (VBool a) (VBool b) = Inr (a = b)"
| "py_eq numpy (VBool a) (VInt j) = Inr ((if a then 1 else 0) = j)"
| "py_eq numpy (VInt i) (VBool b) = Inr (i = (if b then 1 else 0))"
| "py_eq numpy (VInt i) (VInt j) = Inr (i = j)"
| "py_eq numpy (VStr s) (VStr t) = Inr (s = t)"
| "py_eq numpy (VDict d) (VDict e) =
     (if length d = length e then dict_equal numpy d e else Inr False)"
| "py_eq numpy a b = Inr False"
| "dict_equal numpy [] e = Inr True"
| "dict_equal numpy ((k, v) # d) e =
     (case dict_get e k of
        None \<Rightarrow> Inr False
      | Some w \<Rightarrow>
          (case py_eq numpy v w of
             Inl err \<Rightarrow> Inl err
           | Inr eq \<Rightarrow> if eq then dict_equal numpy d e else Inr False))"

text \<open>\<^verbatim>\<open>a != b\<close>, as the argument of \<^verbatim>\<open>np.all\<close>.\<close>

fun negate :: "cmp \<Rightarrow> cmp" where
  "negate (Scalar b) = Scalar (\<not> b)"
| "negate (Elems bs) = Elems (map (\<lambda>b. \<not> b) bs)"

fun py_ne :: "version \<Rightarrow> pyval \<Rightarrow> pyval \<Rightarrow> error + cmp" where
  "py_ne numpy (VArr xs) b =
     (case elementwise_eq numpy xs b of Inl e \<Rightarrow> Inl e | Inr c \<Rightarrow> Inr (negate c))"
| "py_ne numpy a (VArr ys) =
     (case elementwise_eq numpy ys a of Inl e \<Rightarrow> Inl e | Inr c \<Rightarrow> Inr (negate c))"
| "py_ne numpy a b =
     (case py_eq numpy a b of Inl e \<Rightarrow> Inl e | Inr eq \<Rightarrow> Inr (Scalar (\<not> eq)))"

fun np_all :: "cmp \<Rightarrow> bool" where
  "np_all (Scalar b) = b"
| "np_all (Elems bs) = list_all (\<lambda>b. b) bs"

section \<open>\<^verbatim>\<open>_parse\<close>\<close>

text \<open>
  The loop over \<^verbatim>\<open>input_hps.items()\<close>. \<^verbatim>\<open>val != default_hps[key]\<close> is evaluated only for a
  key in \<^verbatim>\<open>default_hash_hp_keys\<close>.
\<close>

fun parse_loop ::
  "version \<Rightarrow> string list \<Rightarrow> dict \<Rightarrow> dict \<Rightarrow> dict \<Rightarrow> dict \<Rightarrow> error + (dict \<times> dict)" where
  "parse_loop numpy default_hash_hp_keys default_hps [] hps hps_to_hash = Inr (hps, hps_to_hash)"
| "parse_loop numpy default_hash_hp_keys default_hps ((key, input_val) # items) hps hps_to_hash =
     (case py_eq numpy input_val (VStr ''None'') of
        Inl e \<Rightarrow> Inl e
      | Inr is_none_str \<Rightarrow>
     (let val = (if is_none_str then VNone else input_val) in
      case dict_get default_hps key of
        None \<Rightarrow>
          Inl (ValueError (key @ '' is not a valid hyperparameter (has no specified default).''))
      | Some default_val \<Rightarrow>
          if key \<in> set default_hash_hp_keys then
            (case py_ne numpy val default_val of
               Inl e \<Rightarrow> Inl e
             | Inr differs \<Rightarrow>
                 parse_loop numpy default_hash_hp_keys default_hps items
                   (dict_setitem hps key val)
                   (if np_all differs then dict_setitem hps_to_hash key val else hps_to_hash))
          else
            parse_loop numpy default_hash_hp_keys default_hps items
              (dict_setitem hps key val) hps_to_hash))"

text \<open>
  \<^verbatim>\<open>_parse\<close>. An argument that is \<^verbatim>\<open>None\<close> has no \<^verbatim>\<open>keys\<close> and no \<^verbatim>\<open>items\<close>
  (\<^verbatim>\<open>AttributeError\<close>). \<^verbatim>\<open>default_hps\<close> is the caller's \<^verbatim>\<open>default_hash_hps\<close> itself, which
  \<^verbatim>\<open>update\<close> changes in place: the second component of the result is the state of the two
  default dicts of the caller when \<^verbatim>\<open>_parse\<close> returns or raises. \<^verbatim>\<open>deepcopy\<close> gives an equal
  value. \<open>keys_view\<close> says whether \<^verbatim>\<open>default_hash_hps.keys()\<close> is a view of the dict, which
  then shows the keys that \<^verbatim>\<open>update\<close> adds (Python 3), or a list of the keys at the time of
  the call (Python 2, which the header of the file names).
\<close>

type_synonym caller = "dict option \<times> dict option"

definition parse ::
  "bool \<Rightarrow> version \<Rightarrow> dict option \<Rightarrow> dict option \<Rightarrow> dict option \<Rightarrow>
     (error + (dict \<times> dict)) \<times> caller" where
  "parse keys_view numpy input_hps default_hash_hps default_non_hash_hps =
     (case default_hash_hps of
        None \<Rightarrow> (Inl AttributeError, (default_hash_hps, default_non_hash_hps))
      | Some hash_hps \<Rightarrow>
     (case default_non_hash_hps of
        None \<Rightarrow> (Inl AttributeError, (default_hash_hps, default_non_hash_hps))
      | Some non_hash_hps \<Rightarrow>
     (case find (dict_contains hash_hps) (dict_keys non_hash_hps) of
        Some non_hash_key \<Rightarrow>
          (Inl (ValueError (''Hyperparameter ['' @ non_hash_key @
                  ''] cannot be both hash and non-hash.'')),
           (default_hash_hps, default_non_hash_hps))
      | None \<Rightarrow>
          (let default_hps = dict_update hash_hps non_hash_hps;
               default_hash_hp_keys =
                 (if keys_view then dict_keys default_hps else dict_keys hash_hps);
               caller = (Some default_hps, default_non_hash_hps)
           in case input_hps of
                None \<Rightarrow> (Inl AttributeError, caller)
              | Some items \<Rightarrow>
                  (parse_loop numpy default_hash_hp_keys default_hps items default_hps [],
                   caller)))))"

section \<open>\<^verbatim>\<open>__init__\<close> and \<^verbatim>\<open>get_hash\<close>\<close>

text \<open>
  The object is its instance dictionary: the attributes that \<^verbatim>\<open>__init__\<close> sets, in the order
  in which it sets them. \<^verbatim>\<open>setattr(self, key, val)\<close> stores any name there, but for
  \<^verbatim>\<open>__class__\<close> (\<^verbatim>\<open>TypeError\<close>: the value is not a class) and \<^verbatim>\<open>__weakref__\<close>
  (\<^verbatim>\<open>AttributeError\<close>: not writable). The two default dicts that the caller passed are
  returned with the result, as \<^verbatim>\<open>_parse\<close> has left them; they and \<^verbatim>\<open>hps\<close> are taken to be
  three different objects.
\<close>

type_synonym hyperparameters = dict

definition setattr :: "hyperparameters \<Rightarrow> string \<Rightarrow> pyval \<Rightarrow> error + hyperparameters" where
  "setattr self name val =
     (if name = ''__class__'' then Inl TypeError
      else if name = ''__weakref__'' then Inl AttributeError
      else Inr (dict_setitem self name val))"

fun setattr_loop :: "dict \<Rightarrow> hyperparameters \<Rightarrow> error + hyperparameters" where
  "setattr_loop [] self = Inr self"
| "setattr_loop ((key, val) # items) self =
     (case setattr self key val of
        Inl e \<Rightarrow> Inl e
      | Inr self' \<Rightarrow> setattr_loop items self')"

definition init ::
  "bool \<Rightarrow> version \<Rightarrow> dict option \<Rightarrow> dict option \<Rightarrow> dict option \<Rightarrow> int \<Rightarrow> bool \<Rightarrow>
     (error + hyperparameters) \<times> caller" where
  "init keys_view numpy hps default_hash_hps default_non_hash_hps hash_len verbose =
     (if default_hash_hps = None \<and> default_non_hash_hps = None then
        (Inl (ValueError (''At lease one of default_hash_hps and default_non_hash_hps '' @
                ''must be specified, but both were None.'')),
         (default_hash_hps, default_non_hash_hps))
      else
        (case parse keys_view numpy hps default_hash_hps default_non_hash_hps of
           (Inl e, caller) \<Rightarrow> (Inl e, caller)
         | (Inr (all_hps_as_dict, hash_hps_as_dict), caller) \<Rightarrow>
             (setattr_loop all_hps_as_dict
                [(''_hash_len'', VInt hash_len), (''_verbose'', VBool verbose),
                 (''_all_hps_as_dict'', VDict all_hps_as_dict),
                 (''_hash_hps_as_dict'', VDict hash_hps_as_dict)],
              caller)))"

text \<open>
  A method of the class is found through the object only when no attribute of the
  instance has its name; otherwise the attribute is found, and calling it raises
  \<^verbatim>\<open>TypeError\<close> (a hyperparameter value is not callable). \<^verbatim>\<open>d.keys()\<close> raises
  \<^verbatim>\<open>AttributeError\<close> for a value that is not a dict.
\<close>

definition call_sorted_str_from_dict ::
  "(int list \<Rightarrow> string) \<Rightarrow> hyperparameters \<Rightarrow> pyval \<Rightarrow> error + string" where
  "call_sorted_str_from_dict array_str self d =
     (if dict_contains self ''_sorted_str_from_dict'' then Inl TypeError
      else case d of
             VDict items \<Rightarrow> sorted_str_from_dict array_str items
           | _ \<Rightarrow> Inl AttributeError)"

text \<open>
  \<^verbatim>\<open>str_to_hash.encode('utf-8')\<close>. In Python 2 the string is a byte string, which \<^verbatim>\<open>encode\<close>
  first decodes as ASCII: a byte outside ASCII raises \<^verbatim>\<open>UnicodeDecodeError\<close>.
\<close>

definition encode_utf8 :: "bool \<Rightarrow> string \<Rightarrow> error + string" where
  "encode_utf8 python3 s =
     (if python3 \<or> list_all (\<lambda>c. (of_char c :: nat) < 128) s then Inr s
      else Inl UnicodeDecodeError)"

text \<open>\<^verbatim>\<open>_generate_hash\<close>; what it prints is not part of the model.\<close>

definition generate_hash ::
  "(int list \<Rightarrow> string) \<Rightarrow> bool \<Rightarrow> hyperparameters \<Rightarrow> pyval \<Rightarrow> error + string" where
  "generate_hash array_str python3 self hps =
     (case call_sorted_str_from_dict array_str self hps of
        Inl e \<Rightarrow> Inl e
      | Inr str_to_hash \<Rightarrow>
          (case encode_utf8 python3 str_to_hash of
             Inl e \<Rightarrow> Inl e
           | Inr bytes \<Rightarrow> Inr (sha512_hexdigest bytes)))"

text \<open>\<^verbatim>\<open>s[0:n]\<close>: a negative \<^verbatim>\<open>n\<close> counts from the end, \<^verbatim>\<open>None\<close> is the end, a \<^verbatim>\<open>bool\<close> is 0 or 1.\<close>

fun slice_to :: "string \<Rightarrow> pyval \<Rightarrow> error + string" where
  "slice_to s (VInt n) =
     Inr (if 0 \<le> n then take (nat n) s else take (length s - nat (- n)) s)"
| "slice_to s (VBool b) = Inr (take (if b then 1 else 0) s)"
| "slice_to s VNone = Inr s"
| "slice_to s _ = Inl TypeError"

text \<open>
  \<^verbatim>\<open>obj.get_hash()\<close>, that is \<^verbatim>\<open>self._generate_hash(self._hash_hps_as_dict)[0:self._hash_len]\<close>,
  and the constructor followed by it.
\<close>

definition get_hash ::
  "(int list \<Rightarrow> string) \<Rightarrow> bool \<Rightarrow> hyperparameters \<Rightarrow> error + string" where
  "get_hash array_str python3 self =
     (if dict_contains self ''get_hash'' \<or> dict_contains self ''_generate_hash'' then Inl TypeError
      else case dict_get self ''_hash_hps_as_dict'' of
             None \<Rightarrow> Inl AttributeError
           | Some hash_hps_as_dict \<Rightarrow>
               (case generate_hash array_str python3 self hash_hps_as_dict of
                  Inl e \<Rightarrow> Inl e
                | Inr hps_hash \<Rightarrow>
                    (case dict_get self ''_hash_len'' of
                       None \<Rightarrow> Inl AttributeError
                     | Some hash_len \<Rightarrow> slice_to hps_hash hash_len)))"

definition init_get_hash ::
  "(int list \<Rightarrow> string) \<Rightarrow> bool \<Rightarrow> version \<Rightarrow> dict option \<Rightarrow> dict option \<Rightarrow> dict option \<Rightarrow>
     int \<Rightarrow> bool \<Rightarrow> error + string" where
  "init_get_hash array_str keys_view numpy hps default_hash_hps default_non_hash_hps hash_len
       verbose =
     (case fst (init keys_view numpy hps default_hash_hps default_non_hash_hps hash_len verbose) of
        Inl e \<Rightarrow> Inl e
      | Inr self \<Rightarrow> get_hash array_str keys_view self)"

section \<open>Notions for the properties of the hash\<close>

text \<open>
  The names that \<^verbatim>\<open>get_hash\<close> looks up in the object: a hyperparameter of one of these
  names takes the place of the method or attribute. With the two names that \<^verbatim>\<open>setattr\<close>
  refuses they are the reserved names.
\<close>

definition own_names :: "string list" where
  "own_names = [''get_hash'', ''_generate_hash'', ''_sorted_str_from_dict'',
     ''_hash_hps_as_dict'', ''_hash_len'']"

definition reserved_names :: "string list" where
  "reserved_names = own_names @ [''__class__'', ''__weakref__'']"

text \<open>
  \<open>inserted k v x y\<close>: the dict \<open>y\<close> is the dict \<open>x\<close> with the new item \<open>(k, v)\<close> at some
  place. \<open>agree_off k self self'\<close>: two objects have the same attributes, but for the
  attribute \<open>k\<close> and the dict of all hyperparameters.
\<close>

definition inserted :: "string \<Rightarrow> pyval \<Rightarrow> dict \<Rightarrow> dict \<Rightarrow> bool" where
  "inserted k v x y =
     (\<exists>a b. x = a @ b \<and> y = a @ (k, v) # b \<and> \<not> dict_contains a k \<and> \<not> dict_contains b k)"

definition agree_off :: "string \<Rightarrow> hyperparameters \<Rightarrow> hyperparameters \<Rightarrow> bool" where
  "agree_off k self self' =
     (\<forall>name. name \<noteq> k \<and> name \<noteq> ''_all_hps_as_dict'' \<longrightarrow> dict_get self' name = dict_get self name)"

text \<open>
  A stand-in for \<^verbatim>\<open>str\<close> of an array where a closed example needs one: the elements between
  brackets, as \<^verbatim>\<open>numpy\<close> prints a short array of numbers of equal width.
\<close>

fun short_array_str :: "int list \<Rightarrow> string" where
  "short_array_str xs = ''['' @ concat (map (\<lambda>x. str_int x @ '' '') (butlast xs)) @
     (if xs = [] then [] else str_int (last xs)) @ '']''"

section \<open>Command line: \<^verbatim>\<open>str2bool\<close>\<close>

definition ascii_uppercase :: string where
  "ascii_uppercase = ''ABCDEFGHIJKLMNOPQRSTUVWXYZ''"

definition ascii_lowercase :: string where
  "ascii_lowercase = ''abcdefghijklmnopqrstuvwxyz''"

text \<open>
  \<^verbatim>\<open>v.lower()\<close> on the bytes of \<^verbatim>\<open>v\<close>: the ASCII letters are lowered. Python lowers other
  letters as well; the result is then still not ASCII, or contains \<^verbatim>\<open>k\<close> (from the Kelvin
  sign), so whether it is one of the ten tokens of \<^verbatim>\<open>str2bool\<close> is not affected.
\<close>

definition lower_char :: "char \<Rightarrow> char" where
  "lower_char c =
     (case map_of (zip ascii_uppercase ascii_lowercase) c of Some d \<Rightarrow> d | None \<Rightarrow> c)"

definition lower :: "string \<Rightarrow> string" where
  "lower v = map lower_char v"

definition true_tokens :: "string list" where
  "true_tokens = [''yes'', ''true'', ''t'', ''y'', ''1'']"

definition false_tokens :: "string list" where
  "false_tokens = [''no'', ''false'', ''f'', ''n'', ''0'']"

definition str2bool :: "string \<Rightarrow> error + bool" where
  "str2bool v =
     (if lower v \<in> set true_tokens then Inr True
      else if lower v \<in> set false_tokens then Inr False
      else Inl ArgumentTypeError)"

text \<open>
  What the specification calls a token "in any letter case": \<open>v\<close> is \<open>t\<close> with some of
  its letters replaced by their capitals.
\<close>

definition upper_char :: "char \<Rightarrow> char" where
  "upper_char c =
     (case map_of (zip ascii_lowercase ascii_uppercase) c of Some d \<Rightarrow> d | None \<Rightarrow> c)"

definition in_any_case :: "string \<Rightarrow> string \<Rightarrow> bool" where
  "in_any_case v t = list_all2 (\<lambda>c d. c = d \<or> c = upper_char d) v t"

section \<open>Command line: \<^verbatim>\<open>reconstruct_helper\<close>\<close>

text \<open>\<^verbatim>\<open>parse_key\<close>: the key up to its first colon, and the key after it.\<close>

definition parse_key :: "string \<Rightarrow> error + (string \<times> string)" where
  "parse_key key =
     (if CHR '':'' \<notin> set key then Inl (ValueError ''key does not contain delimitting colon.'')
      else Inr (takeWhile (\<lambda>c. c \<noteq> CHR '':'') key,
                drop 1 (dropWhile (\<lambda>c. c \<noteq> CHR '':'') key)))"

lemma parse_key_shorter:
  "parse_key key = Inr (dict_name, rem_key) \<Longrightarrow> length rem_key < length key"
proof -
  assume a: "parse_key key = Inr (dict_name, rem_key)"
  then have c: "CHR '':'' \<in> set key" and r: "rem_key = drop 1 (dropWhile (\<lambda>c. c \<noteq> CHR '':'') key)"
    by (auto simp: parse_key_def split: if_splits)
  from c have "dropWhile (\<lambda>c. c \<noteq> CHR '':'') key \<noteq> []" by auto
  then have "length (drop 1 (dropWhile (\<lambda>c. c \<noteq> CHR '':'') key))
      < length (dropWhile (\<lambda>c. c \<noteq> CHR '':'') key)"
    by (cases "dropWhile (\<lambda>c. c \<noteq> CHR '':'') key") auto
  also have "\<dots> \<le> length key" by (rule length_dropWhile_le)
  finally show ?thesis using r by simp
qed

text \<open>\<^verbatim>\<open>assign_leaf\<close>: the first entry of a possibly nested dict.\<close>

function assign_leaf :: "string \<Rightarrow> pyval \<Rightarrow> error + pyval" where
  "assign_leaf key val =
     (if CHR '':'' \<in> set key then
        (case parse_key key of
           Inl e \<Rightarrow> Inl e
         | Inr (dict_name, rem_key) \<Rightarrow>
             (case assign_leaf rem_key val of
                Inl e \<Rightarrow> Inl e
              | Inr sub \<Rightarrow> Inr (VDict [(dict_name, sub)])))
      else Inr (VDict [(key, val)]))"
  by pat_completeness auto
termination
  by (relation "measure (\<lambda>(key, val). length key)") (auto dest: parse_key_shorter)

text \<open>
  \<^verbatim>\<open>add_helper\<close>. The second component of the result counts the calls of
  \<^verbatim>\<open>pdb.set_trace()\<close>, each of which stops the program in the interactive debugger; the
  model goes on as the program does when the user continues. Where \<^verbatim>\<open>D\<close> is not a dict
  (a leaf was stored at this place before), \<^verbatim>\<open>dict_name in D\<close> or the assignment into
  \<^verbatim>\<open>D\<close> raises.
\<close>

fun not_a_dict :: "pyval \<Rightarrow> error" where
  "not_a_dict (VArr xs) = IndexError"
| "not_a_dict _ = TypeError"

function add_helper :: "pyval \<Rightarrow> string \<Rightarrow> pyval \<Rightarrow> nat \<Rightarrow> (error + pyval) \<times> nat" where
  "add_helper D key val traces =
     (if CHR '':'' \<in> set key then
        (case parse_key key of
           Inl e \<Rightarrow> (Inl e, traces)
         | Inr (dict_name, rem_key) \<Rightarrow>
             (let traces' = (if dict_name = ''data_hps'' then Suc traces else traces) in
              case D of
                VDict d \<Rightarrow>
                  (case dict_get d dict_name of
                     Some sub \<Rightarrow>
                       (case add_helper sub rem_key val traces' of
                          (Inl e, traces'') \<Rightarrow> (Inl e, traces'')
                        | (Inr sub', traces'') \<Rightarrow>
                            (Inr (VDict (dict_setitem d dict_name sub')), traces''))
                   | None \<Rightarrow>
                       (case assign_leaf rem_key val of
                          Inl e \<Rightarrow> (Inl e, traces')
                        | Inr sub' \<Rightarrow> (Inr (VDict (dict_setitem d dict_name sub')), traces')))
              | _ \<Rightarrow> (Inl (not_a_dict D), traces')))
      else
        (case D of
           VDict d \<Rightarrow> (Inr (VDict (dict_setitem d key val)), traces)
         | _ \<Rightarrow> (Inl (not_a_dict D), traces)))"
  by pat_completeness auto
termination
  by (relation "measure (\<lambda>(D, key, val, traces). length key)") (auto dest: parse_key_shorter)

text \<open>The loop of \<^verbatim>\<open>reconstruct_helper\<close> over the items of \<^verbatim>\<open>D_flat\<close>; an exception
  ends it.\<close>

fun reconstruct_loop :: "dict \<Rightarrow> pyval \<Rightarrow> nat \<Rightarrow> (error + pyval) \<times> nat" where
  "reconstruct_loop [] D_unflattened traces = (Inr D_unflattened, traces)"
| "reconstruct_loop ((key, val) # items) D_unflattened traces =
     (case add_helper D_unflattened key val traces of
        (Inl e, traces') \<Rightarrow> (Inl e, traces')
      | (Inr D', traces') \<Rightarrow> reconstruct_loop items D' traces')"

definition reconstruct_helper :: "dict \<Rightarrow> (error + pyval) \<times> nat" where
  "reconstruct_helper D_flat = reconstruct_loop D_flat (VDict []) 0"

section \<open>Nested paths\<close>

text \<open>
  The notions in which the properties of \<^verbatim>\<open>reconstruct_helper\<close> are stated: the segments
  of a flat key, the leaf a nested value holds at a path, flat keys whose paths are
  independent (no path is a prefix of another), and two nested values with the same
  content (the same keys, in any order, with the same content under each key).
\<close>

declare assign_leaf.simps [simp del] add_helper.simps [simp del]

text \<open>
  The segments of a flat key are what Python's \<^verbatim>\<open>key.split(':')\<close> gives: the key is cut at
  every colon. The definition goes through the characters of the key and does not use
  \<^verbatim>\<open>parse_key\<close>.
\<close>

fun split_colon :: "string \<Rightarrow> string list" where
  "split_colon [] = [[]]"
| "split_colon (c # cs) =
     (if c = CHR '':'' then [] # split_colon cs
      else (c # hd (split_colon cs)) # tl (split_colon cs))"

fun leaf_at :: "pyval \<Rightarrow> string list \<Rightarrow> pyval option" where
  "leaf_at (VDict d) [] = None"
| "leaf_at v [] = Some v"
| "leaf_at (VDict d) (s # ss) = (case map_of d s of Some w \<Rightarrow> leaf_at w ss | None \<Rightarrow> None)"
| "leaf_at v (s # ss) = None"

fun is_dict :: "pyval \<Rightarrow> bool" where
  "is_dict (VDict d) = True"
| "is_dict _ = False"

fun same_content :: "pyval \<Rightarrow> pyval \<Rightarrow> bool" where
  "same_content (VDict d) (VDict e) =
     (set (map fst d) = set (map fst e) \<and>
      list_all (\<lambda>(k, v). case map_of e k of Some w \<Rightarrow> same_content v w | None \<Rightarrow> False) d)"
| "same_content a b = (a = b)"

definition independent_paths :: "string list list \<Rightarrow> bool" where
  "independent_paths ps = (distinct ps \<and> (\<forall>p \<in> set ps. \<forall>q \<in> set ps. prefix p q \<longrightarrow> p = q))"

definition example_flat :: dict where
  "example_flat = [(''a:b:c'', VInt 1), (''a:b:d'', VInt 2), (''a:e'', VInt 3)]"

fun solid :: "pyval \<Rightarrow> bool" where
  "solid (VDict d) = (d \<noteq> [] \<and> list_all (\<lambda>kv. solid (snd kv)) d)"
| "solid _ = True"

definition clear_of :: "pyval \<Rightarrow> string list \<Rightarrow> bool" where
  "clear_of D p = (\<forall>q x. leaf_at D q = Some x \<longrightarrow> \<not> prefix q p \<and> \<not> prefix p q)"

definition flat_leaves :: "dict \<Rightarrow> (string list \<times> pyval) list" where
  "flat_leaves D_flat = map (\<lambda>(key, val). (split_colon key, val)) D_flat"

text \<open>No segment before the last of any key is \<^verbatim>\<open>data_hps\<close>.\<close>

definition no_data_hps :: "dict \<Rightarrow> bool" where
  "no_data_hps D_flat =
     list_all (\<lambda>kv. ''data_hps'' \<notin> set (butlast (split_colon (fst kv)))) D_flat"

definition example_nested :: pyval where
  "example_nested =
     VDict [(''a'', VDict [(''b'', VDict [(''c'', VInt 1), (''d'', VInt 2)]), (''e'', VInt 3)])]"

chapter \<open>Properties\<close>

section \<open>The digest\<close>

lemma length_hex64: "length (hex64 x) = 16"
  by (simp add: hex64_def)

lemma length_sha_hex: "length (sha_hex s) = 128"
  by (induction s rule: sha_hex.induct) (simp add: length_hex64)

lemma length_sha512_hexdigest: "length (sha512_hexdigest m) = 128"
  by (simp add: sha512_hexdigest_def length_sha_hex)




section \<open>Boolean tokens\<close>

lemma lower_char_other: "c \<notin> set ascii_uppercase \<Longrightarrow> lower_char c = c"
  by (simp add: lower_char_def map_of_zip_is_None [THEN iffD2] ascii_uppercase_def
      ascii_lowercase_def)

lemma upper_char_other: "d \<notin> set ascii_lowercase \<Longrightarrow> upper_char d = d"
  by (simp add: upper_char_def map_of_zip_is_None [THEN iffD2] ascii_uppercase_def
      ascii_lowercase_def)

lemma upper_lower_char: "c \<in> set ascii_uppercase \<Longrightarrow> upper_char (lower_char c) = c"
proof -
  have "\<forall>c \<in> set ascii_uppercase. upper_char (lower_char c) = c"
    by code_simp
  then show "c \<in> set ascii_uppercase \<Longrightarrow> upper_char (lower_char c) = c" by blast
qed

lemma lower_upper_char: "d \<in> set ascii_lowercase \<Longrightarrow> lower_char (upper_char d) = d"
proof -
  have "\<forall>d \<in> set ascii_lowercase. lower_char (upper_char d) = d"
    by code_simp
  then show "d \<in> set ascii_lowercase \<Longrightarrow> lower_char (upper_char d) = d" by blast
qed

lemma lower_char_eq_iff:
  assumes "d \<notin> set ascii_uppercase"
  shows "lower_char c = d \<longleftrightarrow> c = d \<or> c = upper_char d"
proof
  assume l: "lower_char c = d"
  show "c = d \<or> c = upper_char d"
  proof (cases "c \<in> set ascii_uppercase")
    case True
    from upper_lower_char[OF True] l show ?thesis by simp
  next
    case False
    from lower_char_other[OF False] l show ?thesis by simp
  qed
next
  assume "c = d \<or> c = upper_char d"
  then show "lower_char c = d"
  proof
    assume "c = d"
    with assms lower_char_other show ?thesis by simp
  next
    assume c: "c = upper_char d"
    show ?thesis
    proof (cases "d \<in> set ascii_lowercase")
      case True
      from lower_upper_char[OF True] c show ?thesis by simp
    next
      case False
      from upper_char_other[OF False] c assms lower_char_other show ?thesis by simp
    qed
  qed
qed

lemma lower_eq_iff:
  "set t \<inter> set ascii_uppercase = {} \<Longrightarrow> lower v = t \<longleftrightarrow> in_any_case v t"
proof (induction v arbitrary: t)
  case Nil
  then show ?case by (auto simp: lower_def in_any_case_def)
next
  case (Cons c v)
  show ?case
  proof (cases t)
    case Nil
    then show ?thesis by (simp add: lower_def in_any_case_def)
  next
    case (Cons d t')
    with Cons.prems have d: "d \<notin> set ascii_uppercase"
      and t': "set t' \<inter> set ascii_uppercase = {}"
      by auto
    from Cons.IH[OF t'] lower_char_eq_iff[OF d, of c] Cons show ?thesis
      by (simp add: lower_def in_any_case_def)
  qed
qed

lemma tokens_lowercase:
  "\<forall>t \<in> set (true_tokens @ false_tokens). set t \<inter> set ascii_uppercase = {}"
  by code_simp

lemma lower_in_tokens_iff:
  assumes "set ts \<subseteq> set (true_tokens @ false_tokens)"
  shows "lower v \<in> set ts \<longleftrightarrow> (\<exists>t \<in> set ts. in_any_case v t)"
proof -
  have "\<And>t. t \<in> set ts \<Longrightarrow> lower v = t \<longleftrightarrow> in_any_case v t"
    using assms tokens_lowercase lower_eq_iff by blast
  then show ?thesis by blast
qed

text \<open>
  Claim C8. \<^verbatim>\<open>str2bool\<close> returns \<^verbatim>\<open>True\<close> exactly for the tokens yes, true, t, y, 1 written
  in any letter case, \<^verbatim>\<open>False\<close> exactly for no, false, f, n, 0 written in any letter
  case, and raises \<^verbatim>\<open>ArgumentTypeError\<close> (which \<^verbatim>\<open>argparse\<close> reports as a usage error) for
  every other token.
\<close>

theorem str2bool_tokens:
  "str2bool v =
     (if \<exists>t \<in> set [''yes'', ''true'', ''t'', ''y'', ''1'']. in_any_case v t then Inr True
      else if \<exists>t \<in> set [''no'', ''false'', ''f'', ''n'', ''0'']. in_any_case v t then Inr False
      else Inl ArgumentTypeError)"
proof -
  have t: "lower v \<in> set true_tokens \<longleftrightarrow> (\<exists>t \<in> set true_tokens. in_any_case v t)"
    by (rule lower_in_tokens_iff) simp
  have f: "lower v \<in> set false_tokens \<longleftrightarrow> (\<exists>t \<in> set false_tokens. in_any_case v t)"
    by (rule lower_in_tokens_iff) simp
  show ?thesis
    unfolding str2bool_def t f
    unfolding true_tokens_def false_tokens_def ..
qed

theorem str2bool_tokens_witness:
  "str2bool ''yes'' = Inr True \<and> str2bool ''TRUE'' = Inr True \<and> str2bool ''1'' = Inr True
   \<and> str2bool ''No'' = Inr False \<and> str2bool ''maybe'' = Inl ArgumentTypeError"
  using str2bool_tokens [of "''yes''"] str2bool_tokens [of "''TRUE''"]
    str2bool_tokens [of "''1''"] str2bool_tokens [of "''No''"] str2bool_tokens [of "''maybe''"]
  by (simp add: in_any_case_def upper_char_def ascii_lowercase_def ascii_uppercase_def)

section \<open>Nested reconstruction\<close>

lemma map_of_setitem: "map_of (dict_setitem d k v) = (map_of d)(k \<mapsto> v)"
  by (induction d k v rule: dict_setitem.induct) auto

lemma keys_setitem: "set (map fst (dict_setitem d k v)) = insert k (set (map fst d))"
  by (induction d k v rule: dict_setitem.induct) auto

lemma distinct_setitem:
  "distinct (map fst d) \<Longrightarrow> distinct (map fst (dict_setitem d k v))"
  by (induction d k v rule: dict_setitem.induct) (auto simp: keys_setitem simp flip: set_map)

lemma list_all_setitem:
  "list_all P d \<Longrightarrow> P (k, v) \<Longrightarrow> list_all P (dict_setitem d k v)"
  by (induction d k v rule: dict_setitem.induct) auto

lemma setitem_not_Nil: "dict_setitem d k v \<noteq> []"
  by (induction d k v rule: dict_setitem.induct) auto

lemma wf_setitem:
  "wf_val (VDict d) \<Longrightarrow> wf_val v \<Longrightarrow> wf_val (VDict (dict_setitem d k v))"
  by (simp add: distinct_setitem list_all_setitem)

lemma leaf_at_nondict: "\<not> is_dict v \<Longrightarrow> leaf_at v q = (if q = [] then Some v else None)"
  by (cases v; cases q) auto

lemma leaf_at_dict_Cons:
  "leaf_at (VDict d) (s # ss) = (case map_of d s of Some w \<Rightarrow> leaf_at w ss | None \<Rightarrow> None)"
  by simp

lemma split_colon_not_Nil: "split_colon key \<noteq> []"
  by (cases key) auto

lemma split_colon_plain: "CHR '':'' \<notin> set key \<Longrightarrow> split_colon key = [key]"
  by (induction key) auto

lemma split_colon_first:
  "CHR '':'' \<in> set key \<Longrightarrow>
   split_colon key =
     takeWhile (\<lambda>c. c \<noteq> CHR '':'') key # split_colon (drop 1 (dropWhile (\<lambda>c. c \<noteq> CHR '':'') key))"
  by (induction key) auto

lemma split_colon_parse_key:
  "parse_key key = Inr (dict_name, rem_key) \<Longrightarrow> split_colon key = dict_name # split_colon rem_key"
  using split_colon_first[of key] by (auto simp: parse_key_def split: if_splits)

lemma parse_key_Inr:
  "CHR '':'' \<in> set key \<Longrightarrow> \<exists>dict_name rem_key. parse_key key = Inr (dict_name, rem_key)"
  by (simp add: parse_key_def)

lemma assign_leaf_spec:
  assumes "\<not> is_dict val"
  shows "\<exists>sub. assign_leaf key val = Inr (VDict sub) \<and> wf_val (VDict sub) \<and> solid (VDict sub) \<and>
           (\<forall>q. leaf_at (VDict sub) q = (if q = split_colon key then Some val else None))"
proof (induction key rule: length_induct)
  case (1 key)
  show ?case
  proof (cases "CHR '':'' \<in> set key")
    case True
    then obtain dict_name rem_key where pk: "parse_key key = Inr (dict_name, rem_key)"
      using parse_key_Inr by blast
    from parse_key_shorter[OF pk] 1 obtain sub where
      sub: "assign_leaf rem_key val = Inr (VDict sub)" "wf_val (VDict sub)" "solid (VDict sub)"
        "\<forall>q. leaf_at (VDict sub) q = (if q = split_colon rem_key then Some val else None)"
      by blast
    have a: "assign_leaf key val = Inr (VDict [(dict_name, VDict sub)])"
      using True pk sub(1) by (subst assign_leaf.simps) simp
    have "leaf_at (VDict [(dict_name, VDict sub)]) q =
        (if q = split_colon key then Some val else None)" for q
      using sub(4) split_colon_parse_key[OF pk] by (cases q) auto
    with a sub(2,3) show ?thesis by simp
  next
    case False
    have a: "assign_leaf key val = Inr (VDict [(key, val)])"
      using False by (subst assign_leaf.simps) simp
    have "leaf_at (VDict [(key, val)]) q = (if q = split_colon key then Some val else None)" for q
      using split_colon_plain[OF False] leaf_at_nondict[OF assms] by (cases q) auto
    moreover have "wf_val val" "solid val" using assms by (cases val; simp)+
    ultimately show ?thesis using a by simp
  qed
qed

lemma map_of_mem: "distinct (map fst d) \<Longrightarrow> (k, v) \<in> set d \<Longrightarrow> map_of d k = Some v"
  by simp

lemma solid_has_leaf: "solid v \<Longrightarrow> \<exists>q x. leaf_at v q = Some x"
proof (induction v)
  case (VDict d)
  then obtain k w rest where d: "d = (k, w) # rest" by (cases d) auto
  with VDict.prems have "solid w" by simp
  moreover have "(k, w) \<in> set d" using d by simp
  ultimately obtain q x where "leaf_at w q = Some x"
    using VDict.IH by fastforce
  then have "leaf_at (VDict d) (k # q) = Some x" using d by simp
  then show ?case by blast
qed (auto intro: exI[of _ "[]"])

lemma add_helper_spec:
  assumes val: "\<not> is_dict val"
  shows "wf_val (VDict d) \<Longrightarrow> list_all (\<lambda>kv. solid (snd kv)) d \<Longrightarrow>
     clear_of (VDict d) (split_colon key) \<Longrightarrow>
     \<exists>d' traces'. add_helper (VDict d) key val traces = (Inr (VDict d'), traces') \<and>
       wf_val (VDict d') \<and> solid (VDict d') \<and>
       (\<forall>q. leaf_at (VDict d') q = (if q = split_colon key then Some val else leaf_at (VDict d) q))"
proof (induction key arbitrary: d traces rule: length_induct)
  case (1 key)
  note wf = \<open>wf_val (VDict d)\<close> and so = \<open>list_all (\<lambda>kv. solid (snd kv)) d\<close>
    and cl = \<open>clear_of (VDict d) (split_colon key)\<close>
  have wfv: "wf_val val" and sov: "solid val" using val by (cases val; simp)+
  show ?case
  proof (cases "CHR '':'' \<in> set key")
    case False
    have a: "add_helper (VDict d) key val traces = (Inr (VDict (dict_setitem d key val)), traces)"
      using False by (subst add_helper.simps) simp
    have sk: "split_colon key = [key]" by (rule split_colon_plain[OF False])
    have "leaf_at (VDict (dict_setitem d key val)) q =
        (if q = split_colon key then Some val else leaf_at (VDict d) q)" for q
    proof (cases q)
      case Nil
      then show ?thesis by (simp add: sk)
    next
      case (Cons s ss)
      show ?thesis
      proof (cases "s = key")
        case True
        have "leaf_at (VDict d) (key # ss) = None"
        proof (rule ccontr)
          assume "leaf_at (VDict d) (key # ss) \<noteq> None"
          then obtain x where "leaf_at (VDict d) (key # ss) = Some x" by blast
          with cl have "\<not> prefix [key] (key # ss)" unfolding clear_of_def sk by blast
          then show False by simp
        qed
        then show ?thesis
          using Cons True sk leaf_at_nondict[OF val, of ss]
          by (simp add: map_of_setitem del: leaf_at.simps(3) add: leaf_at_dict_Cons)
      next
        case False
        then show ?thesis using Cons sk by (simp add: map_of_setitem)
      qed
    qed
    moreover have "wf_val (VDict (dict_setitem d key val))"
      by (rule wf_setitem[OF wf wfv])
    moreover have "solid (VDict (dict_setitem d key val))"
      using so sov by (simp add: setitem_not_Nil list_all_setitem)
    ultimately show ?thesis using a by blast
  next
    case True
    then obtain dict_name rem_key where pk: "parse_key key = Inr (dict_name, rem_key)"
      using parse_key_Inr by blast
    have sk: "split_colon key = dict_name # split_colon rem_key" by (rule split_colon_parse_key[OF pk])
    define traces1 where "traces1 = (if dict_name = ''data_hps'' then Suc traces else traces)"
    have "\<exists>sub' traces'. add_helper (VDict d) key val traces =
            (Inr (VDict (dict_setitem d dict_name (VDict sub'))), traces') \<and>
          wf_val (VDict sub') \<and> solid (VDict sub') \<and>
          (\<forall>q. leaf_at (VDict sub') q = (if q = split_colon rem_key then Some val
                 else case map_of d dict_name of Some w \<Rightarrow> leaf_at w q | None \<Rightarrow> None))"
    proof (cases "map_of d dict_name")
      case None
      obtain sub where sub: "assign_leaf rem_key val = Inr (VDict sub)" "wf_val (VDict sub)"
          "solid (VDict sub)"
          "\<forall>q. leaf_at (VDict sub) q = (if q = split_colon rem_key then Some val else None)"
        using assign_leaf_spec[OF val] by blast
      have "add_helper (VDict d) key val traces =
          (Inr (VDict (dict_setitem d dict_name (VDict sub))), traces1)"
        using True pk None sub(1)
        by (subst add_helper.simps) (simp add: dict_get_def traces1_def)
      with sub None show ?thesis by auto
    next
      case (Some w)
      then have mem: "(dict_name, w) \<in> set d" by (rule map_of_SomeD)
      have "is_dict w"
      proof (rule ccontr)
        assume "\<not> is_dict w"
        then have "leaf_at (VDict d) [dict_name] = Some w"
          using Some leaf_at_nondict[of w "[]"] by simp
        with cl have "\<not> prefix [dict_name] (split_colon key)" unfolding clear_of_def by blast
        then show False by (simp add: sk)
      qed
      then obtain ds where w: "w = VDict ds" by (cases w) auto
      from mem wf have "wf_val w" by (fastforce simp: list_all_iff)
      then have wfw: "wf_val (VDict ds)" unfolding w .
      from mem so have "solid w" by (fastforce simp: list_all_iff)
      then have sow: "solid (VDict ds)" unfolding w .
      then have sods: "list_all (\<lambda>kv. solid (snd kv)) ds" by simp
      have clw: "clear_of (VDict ds) (split_colon rem_key)"
        unfolding clear_of_def
      proof (intro allI impI)
        fix q x assume "leaf_at (VDict ds) q = Some x"
        then have "leaf_at (VDict d) (dict_name # q) = Some x" using Some w by simp
        with cl show "\<not> prefix q (split_colon rem_key) \<and> \<not> prefix (split_colon rem_key) q"
          unfolding clear_of_def sk by fastforce
      qed
      from parse_key_shorter[OF pk] 1(1) wfw sods clw
      obtain ds' traces' where r: "add_helper (VDict ds) rem_key val traces1 = (Inr (VDict ds'), traces')"
        "wf_val (VDict ds')" "solid (VDict ds')"
        "\<forall>q. leaf_at (VDict ds') q =
           (if q = split_colon rem_key then Some val else leaf_at (VDict ds) q)"
        by blast
      have "add_helper (VDict d) key val traces =
          (Inr (VDict (dict_setitem d dict_name (VDict ds'))), traces')"
        using True pk Some w r(1)
        by (subst add_helper.simps) (simp add: dict_get_def traces1_def)
      with r Some w show ?thesis by auto
    qed
    then obtain sub' traces' where r:
      "add_helper (VDict d) key val traces =
         (Inr (VDict (dict_setitem d dict_name (VDict sub'))), traces')"
      "wf_val (VDict sub')" "solid (VDict sub')"
      "\<forall>q. leaf_at (VDict sub') q = (if q = split_colon rem_key then Some val
             else case map_of d dict_name of Some w \<Rightarrow> leaf_at w q | None \<Rightarrow> None)"
      by blast
    have "leaf_at (VDict (dict_setitem d dict_name (VDict sub'))) q =
        (if q = split_colon key then Some val else leaf_at (VDict d) q)" for q
    proof (cases q)
      case Nil
      then show ?thesis by (simp add: sk)
    next
      case (Cons s ss)
      then show ?thesis using r(4) sk by (simp add: map_of_setitem)
    qed
    moreover have "wf_val (VDict (dict_setitem d dict_name (VDict sub')))"
      by (rule wf_setitem[OF wf r(2)])
    moreover have "solid (VDict (dict_setitem d dict_name (VDict sub')))"
      using so r(3) by (simp add: setitem_not_Nil list_all_setitem)
    ultimately show ?thesis using r(1) by blast
  qed
qed

lemma independent_paths_Cons:
  "independent_paths (p # ps) \<longleftrightarrow>
     independent_paths ps \<and> (\<forall>q \<in> set ps. q \<noteq> p \<and> \<not> prefix p q \<and> \<not> prefix q p)"
  unfolding independent_paths_def by auto

lemma reconstruct_loop_spec:
  "wf_val (VDict d) \<Longrightarrow> list_all (\<lambda>kv. solid (snd kv)) d \<Longrightarrow>
   list_all (\<lambda>kv. \<not> is_dict (snd kv)) items \<Longrightarrow>
   independent_paths (map fst (flat_leaves items)) \<Longrightarrow>
   (\<forall>p \<in> set (map fst (flat_leaves items)). clear_of (VDict d) p) \<Longrightarrow>
   \<exists>d' traces'. reconstruct_loop items (VDict d) traces = (Inr (VDict d'), traces') \<and>
      wf_val (VDict d') \<and> list_all (\<lambda>kv. solid (snd kv)) d' \<and>
      (\<forall>q. leaf_at (VDict d') q =
         (case map_of (flat_leaves items) q of Some v \<Rightarrow> Some v | None \<Rightarrow> leaf_at (VDict d) q))"
proof (induction items arbitrary: d traces)
  case Nil
  then show ?case by (simp add: flat_leaves_def)
next
  case (Cons item items)
  obtain key val where item: "item = (key, val)" by (cases item)
  from Cons.prems(3) have val: "\<not> is_dict val" and vals: "list_all (\<lambda>kv. \<not> is_dict (snd kv)) items"
    by (simp_all add: item)
  from Cons.prems(4) have ind: "independent_paths (map fst (flat_leaves items))"
    and other: "\<forall>q \<in> set (map fst (flat_leaves items)).
        q \<noteq> split_colon key \<and> \<not> prefix (split_colon key) q \<and> \<not> prefix q (split_colon key)"
    by (simp_all add: item flat_leaves_def independent_paths_Cons)
  from Cons.prems(5) have cl: "clear_of (VDict d) (split_colon key)"
    and cls: "\<forall>p \<in> set (map fst (flat_leaves items)). clear_of (VDict d) p"
    by (simp_all add: item flat_leaves_def)
  from add_helper_spec[OF val Cons.prems(1,2) cl, of traces]
  obtain d1 traces1 where a: "add_helper (VDict d) key val traces = (Inr (VDict d1), traces1)"
    and wf1: "wf_val (VDict d1)" and so1: "solid (VDict d1)"
    and l1: "\<forall>q. leaf_at (VDict d1) q = (if q = split_colon key then Some val else leaf_at (VDict d) q)"
    by blast
  from so1 have so1': "list_all (\<lambda>kv. solid (snd kv)) d1" by simp
  have cl1: "\<forall>p \<in> set (map fst (flat_leaves items)). clear_of (VDict d1) p"
  proof
    fix p assume p: "p \<in> set (map fst (flat_leaves items))"
    show "clear_of (VDict d1) p"
      unfolding clear_of_def
    proof (intro allI impI)
      fix q x assume "leaf_at (VDict d1) q = Some x"
      then consider "q = split_colon key" | "leaf_at (VDict d) q = Some x"
        using l1 by (auto split: if_splits)
      then show "\<not> prefix q p \<and> \<not> prefix p q"
      proof cases
        case 1
        then show ?thesis using other p by blast
      next
        case 2
        then show ?thesis using cls p unfolding clear_of_def by blast
      qed
    qed
  qed
  from Cons.IH[OF wf1 so1' vals ind cl1, of traces1]
  obtain d' traces' where r: "reconstruct_loop items (VDict d1) traces1 = (Inr (VDict d'), traces')"
    "wf_val (VDict d')" "list_all (\<lambda>kv. solid (snd kv)) d'"
    "\<forall>q. leaf_at (VDict d') q =
       (case map_of (flat_leaves items) q of Some v \<Rightarrow> Some v | None \<Rightarrow> leaf_at (VDict d1) q)"
    by blast
  have fresh: "map_of (flat_leaves items) (split_colon key) = None"
    using other by (auto simp: map_of_eq_None_iff)
  have "leaf_at (VDict d') q =
      (case map_of (flat_leaves (item # items)) q of Some v \<Rightarrow> Some v
       | None \<Rightarrow> leaf_at (VDict d) q)" for q
    using r(4) l1 fresh by (auto simp: item flat_leaves_def split: option.splits)
  moreover have "reconstruct_loop (item # items) (VDict d) traces = (Inr (VDict d'), traces')"
    using a r(1) by (simp add: item)
  ultimately show ?case using r(2,3) by blast
qed

lemma canon_dict:
  assumes wfd: "wf_val (VDict d)" and wfe: "wf_val (VDict e)"
    and sod: "list_all (\<lambda>kv. solid (snd kv)) d" and soe: "list_all (\<lambda>kv. solid (snd kv)) e"
    and eq: "\<forall>q. leaf_at (VDict d) q = leaf_at (VDict e) q"
    and IH: "\<And>k v w. (k, v) \<in> set d \<Longrightarrow> wf_val w \<Longrightarrow> solid w \<Longrightarrow>
               \<forall>q. leaf_at v q = leaf_at w q \<Longrightarrow> same_content v w"
  shows "same_content (VDict d) (VDict e)"
proof -
  have sub: "fst ` set a \<subseteq> fst ` set b"
    if "wf_val (VDict a)" "list_all (\<lambda>kv. solid (snd kv)) a"
      "\<forall>q. leaf_at (VDict a) q = leaf_at (VDict b) q" for a b
  proof
    fix k assume "k \<in> fst ` set a"
    then obtain v where kv: "(k, v) \<in> set a" by auto
    with that(1) have m: "map_of a k = Some v" by simp
    from kv that(2) have "solid v" by (auto simp: list_all_iff)
    then obtain q x where "leaf_at v q = Some x" using solid_has_leaf by blast
    then have "leaf_at (VDict a) (k # q) = Some x" using m by simp
    then have "leaf_at (VDict b) (k # q) = Some x" using that(3) by metis
    then have "map_of b k \<noteq> None" by (auto split: option.splits)
    then show "k \<in> fst ` set b" by (simp add: map_of_eq_None_iff)
  qed
  have eq': "\<forall>q. leaf_at (VDict e) q = leaf_at (VDict d) q" using eq by simp
  have keys: "fst ` set d = fst ` set e"
    using sub[OF wfd sod eq] sub[OF wfe soe eq'] by blast
  have "case map_of e k of Some w \<Rightarrow> same_content v w | None \<Rightarrow> False"
    if kv: "(k, v) \<in> set d" for k v
  proof -
    from kv keys have "k \<in> fst ` set e" by force
    then obtain w where w: "map_of e k = Some w"
      by (metis map_of_eq_None_iff not_Some_eq)
    then have mem: "(k, w) \<in> set e" by (rule map_of_SomeD)
    with wfe soe have "wf_val w" "solid w" by (auto simp: list_all_iff)
    moreover have "leaf_at v q = leaf_at w q" for q
    proof -
      from kv wfd have "map_of d k = Some v" by simp
      then have "leaf_at v q = leaf_at (VDict d) (k # q)" by simp
      also have "\<dots> = leaf_at (VDict e) (k # q)" using eq by blast
      also have "\<dots> = leaf_at w q" using w by simp
      finally show ?thesis .
    qed
    ultimately have "same_content v w" using IH[OF kv] by blast
    with w show ?thesis by simp
  qed
  then show ?thesis using keys by (auto simp: list_all_iff)
qed

lemma same_leaves_same_content:
  "wf_val a \<Longrightarrow> wf_val b \<Longrightarrow> solid a \<Longrightarrow> solid b \<Longrightarrow> \<forall>q. leaf_at a q = leaf_at b q \<Longrightarrow>
   same_content a b"
proof (induction a arbitrary: b)
  case (VDict d)
  from solid_has_leaf[OF VDict.prems(3)] obtain q x where "leaf_at (VDict d) q = Some x" by blast
  moreover from this have "q \<noteq> []" by auto
  ultimately have "is_dict b"
    using VDict.prems(5) leaf_at_nondict[of b q] by (cases "is_dict b") auto
  then obtain e where b: "b = VDict e" by (cases b) auto
  show ?case unfolding b
  proof (rule canon_dict)
    show "wf_val (VDict d)" by fact
    show "wf_val (VDict e)" using VDict.prems(2) b by simp
    show "list_all (\<lambda>kv. solid (snd kv)) d" using VDict.prems(3) by simp
    show "list_all (\<lambda>kv. solid (snd kv)) e" using VDict.prems(4) b by simp
    show "\<forall>q. leaf_at (VDict d) q = leaf_at (VDict e) q" using VDict.prems(5) b by simp
  next
    fix k v w
    assume kv: "(k, v) \<in> set d" and w: "wf_val w" "solid w" "\<forall>q. leaf_at v q = leaf_at w q"
    from kv VDict.prems(1,3) have "wf_val v" "solid v" by (auto simp: list_all_iff)
    with VDict.IH[of "(k, v)" v w] kv w show "same_content v w" by simp
  qed
next
  case VNone
  from this(5)[rule_format, of "[]"] show ?case by (cases b) auto
next
  case (VBool x)
  from this(5)[rule_format, of "[]"] show ?case by (cases b) auto
next
  case (VInt x)
  from this(5)[rule_format, of "[]"] show ?case by (cases b) auto
next
  case (VStr x)
  from this(5)[rule_format, of "[]"] show ?case by (cases b) auto
next
  case (VArr x)
  from this(5)[rule_format, of "[]"] show ?case by (cases b) auto
qed

lemma reconstruct_helper_spec:
  assumes "independent_paths (map fst (flat_leaves D_flat))"
    and "list_all (\<lambda>kv. \<not> is_dict (snd kv)) D_flat"
  shows "\<exists>d traces. reconstruct_helper D_flat = (Inr (VDict d), traces) \<and> wf_val (VDict d) \<and>
     list_all (\<lambda>kv. solid (snd kv)) d \<and> (\<forall>q. leaf_at (VDict d) q = map_of (flat_leaves D_flat) q)"
proof -
  have empty: "leaf_at (VDict []) q = None" for q by (cases q) simp_all
  then have "\<forall>p \<in> set (map fst (flat_leaves D_flat)). clear_of (VDict []) p"
    by (simp add: clear_of_def)
  from reconstruct_loop_spec[OF _ _ assms(2,1) this, of 0]
  obtain d traces where r: "reconstruct_loop D_flat (VDict []) 0 = (Inr (VDict d), traces)"
    "wf_val (VDict d)" "list_all (\<lambda>kv. solid (snd kv)) d"
    "\<forall>q. leaf_at (VDict d) q =
       (case map_of (flat_leaves D_flat) q of Some v \<Rightarrow> Some v | None \<Rightarrow> leaf_at (VDict []) q)"
    by auto
  have "leaf_at (VDict d) q = map_of (flat_leaves D_flat) q" for q
    unfolding r(4)[rule_format] empty by (simp split: option.splits)
  with r(1,2,3) show ?thesis unfolding reconstruct_helper_def by blast
qed

lemma flat_leaves_perm:
  assumes "mset D_flat' = mset D_flat" and "independent_paths (map fst (flat_leaves D_flat))"
  shows "independent_paths (map fst (flat_leaves D_flat'))"
    and "map_of (flat_leaves D_flat') = map_of (flat_leaves D_flat)"
proof -
  have m: "mset (flat_leaves D_flat') = mset (flat_leaves D_flat)"
    unfolding flat_leaves_def using assms(1) by (metis mset_map)
  then have mk: "mset (map fst (flat_leaves D_flat')) = mset (map fst (flat_leaves D_flat))"
    by (metis mset_map)
  from assms(2) have d: "distinct (map fst (flat_leaves D_flat))"
    by (simp add: independent_paths_def)
  with mk have d': "distinct (map fst (flat_leaves D_flat'))"
    by (metis mset_eq_imp_distinct_iff)
  from mk have "set (map fst (flat_leaves D_flat')) = set (map fst (flat_leaves D_flat))"
    by (rule mset_eq_setD)
  with assms(2) d' show "independent_paths (map fst (flat_leaves D_flat'))"
    unfolding independent_paths_def by simp
  from m have "set (flat_leaves D_flat') = set (flat_leaves D_flat)" by (rule mset_eq_setD)
  with d d' show "map_of (flat_leaves D_flat') = map_of (flat_leaves D_flat)"
    by (simp add: map_of_inject_set)
qed

lemma reconstruct_example: "reconstruct_helper example_flat = (Inr example_nested, 0)"
  by (simp add: reconstruct_helper_def example_flat_def example_nested_def add_helper.simps
      assign_leaf.simps parse_key_def dict_get_def)

lemma example_independent:
  "independent_paths (map fst (flat_leaves example_flat))"
  "list_all (\<lambda>kv. \<not> is_dict (snd kv)) example_flat"
  by (simp_all add: independent_paths_def flat_leaves_def example_flat_def split_colon.simps
      parse_key_def)

lemma add_helper_no_trace:
  "''data_hps'' \<notin> set (butlast (split_colon key)) \<Longrightarrow>
   snd (add_helper D key val traces) = traces"
proof (induction key arbitrary: D traces rule: length_induct)
  case (1 key)
  show ?case
  proof (cases "CHR '':'' \<in> set key")
    case False
    then show ?thesis by (subst add_helper.simps) (simp split: pyval.splits)
  next
    case True
    then obtain dict_name rem_key where pk: "parse_key key = Inr (dict_name, rem_key)"
      using parse_key_Inr by blast
    have sk: "split_colon key = dict_name # split_colon rem_key"
      by (rule split_colon_parse_key[OF pk])
    with 1(2) split_colon_not_Nil[of rem_key]
    have dn: "dict_name \<noteq> ''data_hps''"
      and rest: "''data_hps'' \<notin> set (butlast (split_colon rem_key))"
      by auto
    have "snd (add_helper sub rem_key val traces) = traces" for sub
      using parse_key_shorter[OF pk] 1(1) rest by blast
    then show ?thesis using True pk dn
      by (subst add_helper.simps)
        (auto simp: Let_def split: pyval.splits option.splits sum.splits prod.splits dest: sndI)
  qed
qed

lemma reconstruct_loop_no_trace:
  "no_data_hps items \<Longrightarrow> snd (reconstruct_loop items D traces) = traces"
proof (induction items arbitrary: D traces)
  case Nil
  then show ?case by simp
next
  case (Cons item items)
  obtain key val where item: "item = (key, val)" by (cases item)
  from Cons.prems have k: "''data_hps'' \<notin> set (butlast (split_colon key))"
    and rest: "no_data_hps items"
    by (simp_all add: no_data_hps_def item)
  from add_helper_no_trace[OF k, of D val traces] Cons.IH[OF rest]
  show ?case
    by (cases "add_helper D key val traces") (auto simp: item split: sum.splits)
qed

lemma no_data_hps_perm: "mset D_flat' = mset D_flat \<Longrightarrow> no_data_hps D_flat' = no_data_hps D_flat"
  unfolding no_data_hps_def list_all_iff by (metis mset_eq_setD)

lemma example_no_data_hps: "no_data_hps example_flat"
  by (simp add: no_data_hps_def example_flat_def)

text \<open>
  Claim C5. For flat keys with independent paths and leaf values, \<^verbatim>\<open>reconstruct_helper\<close>
  returns a nested dict that holds every value at the path of its key (the key cut at
  every colon: \<^verbatim>\<open>parse_key\<close> splits at the first colon, and the rest is split in the
  recursion and merged into the dicts already there) and nothing else; iterating over
  the same items in another order gives a dict with the same content. Where no segment
  before the last of a key is \<^verbatim>\<open>data_hps\<close>, the debugger is never entered on the way (where
  one is, see claim C10: the calls of the debugger may depend on the order, the dict
  does not). In particular the flat keys \<^verbatim>\<open>a:b:c\<close>, \<^verbatim>\<open>a:b:d\<close>, \<^verbatim>\<open>a:e\<close> with values 1, 2, 3
  give, in every order and without entering the debugger, the content of
  \<^verbatim>\<open>{'a': {'b': {'c': 1, 'd': 2}, 'e': 3}}\<close>.
\<close>

theorem reconstruct_helper_order_independent:
  "(independent_paths (map fst (flat_leaves D_flat)) \<and>
    list_all (\<lambda>kv. \<not> is_dict (snd kv)) D_flat \<and> mset D_flat' = mset D_flat \<longrightarrow>
      (\<exists>D D'. fst (reconstruct_helper D_flat) = Inr D \<and>
         fst (reconstruct_helper D_flat') = Inr D' \<and> same_content D D' \<and>
         (\<forall>q. leaf_at D q = map_of (flat_leaves D_flat) q))) \<and>
   (no_data_hps D_flat \<longrightarrow> snd (reconstruct_helper D_flat) = 0) \<and>
   (mset D_flat'' = mset example_flat \<longrightarrow>
      (\<exists>D. reconstruct_helper D_flat'' = (Inr D, 0) \<and> same_content example_nested D))"
proof -
  have general: "\<exists>D D'. fst (reconstruct_helper A) = Inr D \<and>
         fst (reconstruct_helper B) = Inr D' \<and> same_content D D' \<and>
         (\<forall>q. leaf_at D q = map_of (flat_leaves A) q)"
    if ind: "independent_paths (map fst (flat_leaves A))"
      and leaves: "list_all (\<lambda>kv. \<not> is_dict (snd kv)) A" and perm: "mset B = mset A" for A B
  proof -
    from reconstruct_helper_spec[OF ind leaves] obtain d traces where
      a: "reconstruct_helper A = (Inr (VDict d), traces)" "wf_val (VDict d)"
        "list_all (\<lambda>kv. solid (snd kv)) d" "\<forall>q. leaf_at (VDict d) q = map_of (flat_leaves A) q"
      by blast
    from perm have "set B = set A" by (rule mset_eq_setD)
    with leaves have leaves': "list_all (\<lambda>kv. \<not> is_dict (snd kv)) B" by (simp add: list_all_iff)
    from reconstruct_helper_spec[OF flat_leaves_perm(1)[OF perm ind] leaves'] obtain e traces' where
      b: "reconstruct_helper B = (Inr (VDict e), traces')" "wf_val (VDict e)"
        "list_all (\<lambda>kv. solid (snd kv)) e" "\<forall>q. leaf_at (VDict e) q = map_of (flat_leaves B) q"
      by blast
    have "\<forall>q. leaf_at (VDict d) q = leaf_at (VDict e) q"
      using a(4) b(4) flat_leaves_perm(2)[OF perm ind] by simp
    then have "same_content (VDict d) (VDict e)"
      using canon_dict[OF a(2) b(2) a(3) b(3)] same_leaves_same_content a(2) a(3)
      by (fastforce simp: list_all_iff)
    with a(1,4) b(1) show ?thesis by auto
  qed
  have quiet: "snd (reconstruct_helper A) = 0" if "no_data_hps A" for A
    unfolding reconstruct_helper_def by (rule reconstruct_loop_no_trace[OF that])
  have "\<exists>D. reconstruct_helper D_flat'' = (Inr D, 0) \<and> same_content example_nested D"
    if perm: "mset D_flat'' = mset example_flat"
  proof -
    from general[OF example_independent perm] obtain D where
      "fst (reconstruct_helper D_flat'') = Inr D" "same_content example_nested D"
      by (auto simp: reconstruct_example)
    moreover have "snd (reconstruct_helper D_flat'') = 0"
      using quiet no_data_hps_perm[OF perm] example_no_data_hps by simp
    ultimately show ?thesis by (cases "reconstruct_helper D_flat''") auto
  qed
  with general quiet show ?thesis by blast
qed

theorem reconstruct_helper_order_independent_witness:
  "(\<exists>D D'. fst (reconstruct_helper example_flat) = Inr D \<and>
         fst (reconstruct_helper (rev example_flat)) = Inr D' \<and> same_content D D' \<and>
         (\<forall>q. leaf_at D q = map_of (flat_leaves example_flat) q)) \<and>
   snd (reconstruct_helper example_flat) = 0 \<and>
   (\<exists>D. reconstruct_helper
        [(''a:e'', VInt 3), (''a:b:c'', VInt 1), (''a:b:d'', VInt 2)] = (Inr D, 0) \<and>
      same_content example_nested D)"
proof -
  have "mset [(''a:e'', VInt 3), (''a:b:c'', VInt 1), (''a:b:d'', VInt 2)] = mset example_flat"
    by (simp add: example_flat_def)
  with reconstruct_helper_order_independent
    [of example_flat "rev example_flat" "[(''a:e'', VInt 3), (''a:b:c'', VInt 1), (''a:b:d'', VInt 2)]"]
    example_independent example_no_data_hps
  show ?thesis by simp
qed

lemma add_helper_traces_mono: "traces \<le> snd (add_helper D key val traces)"
proof (induction key arbitrary: D traces rule: length_induct)
  case (1 key)
  show ?case
  proof (cases "CHR '':'' \<in> set key")
    case False
    then show ?thesis by (subst add_helper.simps) (simp split: pyval.splits)
  next
    case True
    then obtain dict_name rem_key where pk: "parse_key key = Inr (dict_name, rem_key)"
      using parse_key_Inr by blast
    have "Suc traces \<le> snd (add_helper sub rem_key val (Suc traces))"
      "traces \<le> snd (add_helper sub rem_key val traces)" for sub
      using parse_key_shorter[OF pk] 1 by blast+
    then show ?thesis using True pk
      by (subst add_helper.simps)
        (auto simp: Let_def split: pyval.splits option.splits sum.splits prod.splits
          intro: Suc_leD dest: sndI)
  qed
qed

text \<open>
  Claim C10. \<^verbatim>\<open>add_helper\<close> does not treat every head segment alike: a flat key whose
  first segment is \<^verbatim>\<open>data_hps\<close> makes it call \<^verbatim>\<open>pdb.set_trace()\<close>, whatever the rest of
  the key, the value and the dict are, where the same key under another head segment
  reaches the same nested shape without any such call.
\<close>

theorem add_helper_data_hps_set_trace:
  "traces < snd (add_helper (VDict d) (''data_hps:'' @ rem_key) val traces) \<and>
   reconstruct_helper [(''data_hps:n'', VInt 10)] =
     (Inr (VDict [(''data_hps'', VDict [(''n'', VInt 10)])]), 1) \<and>
   reconstruct_helper [(''model_hps:n'', VInt 10)] =
     (Inr (VDict [(''model_hps'', VDict [(''n'', VInt 10)])]), 0)"
proof -
  have pk: "parse_key (''data_hps:'' @ rem_key) = Inr (''data_hps'', rem_key)"
    by (simp add: parse_key_def)
  have m: "Suc traces \<le> snd (add_helper sub rem_key val (Suc traces))" for sub
    by (rule add_helper_traces_mono)
  have "Suc traces \<le> snd (add_helper (VDict d) (''data_hps:'' @ rem_key) val traces)"
    using pk m
    by (subst add_helper.simps)
      (auto simp: Let_def split: option.splits sum.splits prod.splits dest: sndI)
  moreover have "reconstruct_helper [(''data_hps:n'', VInt 10)] =
     (Inr (VDict [(''data_hps'', VDict [(''n'', VInt 10)])]), 1)"
    by (simp add: reconstruct_helper_def add_helper.simps assign_leaf.simps parse_key_def
        dict_get_def)
  moreover have "reconstruct_helper [(''model_hps:n'', VInt 10)] =
     (Inr (VDict [(''model_hps'', VDict [(''n'', VInt 10)])]), 0)"
    by (simp add: reconstruct_helper_def add_helper.simps assign_leaf.simps parse_key_def
        dict_get_def)
  ultimately show ?thesis by simp
qed

section \<open>The constructor\<close>

lemmas init_eval = Let_def init_def parse_def dict_contains_def dict_keys_def dict_get_def setattr_def

text \<open>
  Claim C9. With \<^verbatim>\<open>hps\<close> left at its default \<^verbatim>\<open>None\<close> the constructor always raises,
  whatever the defaults are: for two disjoint default dicts it is the \<^verbatim>\<open>AttributeError\<close>
  of \<^verbatim>\<open>input_hps.items()\<close>. So a constructor call that returns an object was given a
  dict as \<^verbatim>\<open>hps\<close>.
\<close>

theorem init_without_overrides_raises:
  "isl (fst (init keys_view numpy None default_hash_hps default_non_hash_hps hash_len verbose)) \<and>
   (find (dict_contains hash_hps) (dict_keys non_hash_hps) = None \<longrightarrow>
      fst (init keys_view numpy None (Some hash_hps) (Some non_hash_hps) hash_len verbose) =
        Inl AttributeError) \<and>
   (fst (init keys_view numpy hps default_hash_hps default_non_hash_hps hash_len verbose) = Inr self \<longrightarrow>
      hps \<noteq> None)"
proof -
  have a: "isl (fst (init keys_view numpy None dh dn hash_len verbose))" for dh dn
    by (auto simp: init_def parse_def Let_def split: option.splits)
  have "fst (init keys_view numpy None (Some hash_hps) (Some non_hash_hps) hash_len verbose) =
        Inl AttributeError"
    if "find (dict_contains hash_hps) (dict_keys non_hash_hps) = None"
    using that by (simp add: init_def parse_def Let_def)
  moreover have "hps \<noteq> None"
    if "fst (init keys_view numpy hps default_hash_hps default_non_hash_hps hash_len verbose) = Inr self"
    using that a[of default_hash_hps default_non_hash_hps] by (cases hps) auto
  ultimately show ?thesis using a by blast
qed

theorem init_without_overrides_raises_witness:
  "isl (fst (init True (1, 26) None (Some [(''lr'', VInt 1)]) (Some [(''log_dir'', VStr ''/tmp'')]) 10 False)) \<and>
   fst (init True (1, 26) None (Some [(''lr'', VInt 1)]) (Some [(''log_dir'', VStr ''/tmp'')]) 10 False) =
     Inl AttributeError \<and>
   fst (init True (1, 26) (Some []) (Some [(''lr'', VInt 1)]) (Some [(''log_dir'', VStr ''/tmp'')]) 10 False) =
     Inr [(''_hash_len'', VInt 10), (''_verbose'', VBool False),
          (''_all_hps_as_dict'', VDict [(''lr'', VInt 1), (''log_dir'', VStr ''/tmp'')]),
          (''_hash_hps_as_dict'', VDict []),
          (''lr'', VInt 1), (''log_dir'', VStr ''/tmp'')] \<and>
   Some ([] :: dict) \<noteq> None"
  using init_without_overrides_raises
    [of True "(1, 26)" "Some [(''lr'', VInt 1)]" "Some [(''log_dir'', VStr ''/tmp'')]" 10 False
        "[(''lr'', VInt 1)]" "[(''log_dir'', VStr ''/tmp'')]" "Some []"
        "[(''_hash_len'', VInt 10), (''_verbose'', VBool False),
          (''_all_hps_as_dict'', VDict [(''lr'', VInt 1), (''log_dir'', VStr ''/tmp'')]),
          (''_hash_hps_as_dict'', VDict []),
          (''lr'', VInt 1), (''log_dir'', VStr ''/tmp'')]"]
  by (simp add: init_eval)

text \<open>
  Claim C6. The constructor lets through a call in which exactly one of the default dicts
  is \<^verbatim>\<open>None\<close> (it raises \<^verbatim>\<open>ValueError\<close> only when both are), and \<^verbatim>\<open>_parse\<close> then raises
  \<^verbatim>\<open>AttributeError\<close> on \<^verbatim>\<open>None.keys()\<close>: no object is constructed.
\<close>

theorem init_one_default_missing:
  "fst (init keys_view numpy (Some []) (Some [(''lr'', VInt 1)]) None 10 False) = Inl AttributeError \<and>
   fst (init keys_view numpy (Some []) None (Some [(''log_dir'', VStr ''/tmp'')]) 10 False) =
     Inl AttributeError"
  by (simp add: init_eval)

text \<open>
  Claim C7. After the constructor the caller's \<^verbatim>\<open>default_hash_hps\<close> also holds the entries
  of \<^verbatim>\<open>default_non_hash_hps\<close> (\<^verbatim>\<open>default_hps\<close> is the same object, and it is updated in
  place): so it is after a successful call, so it is after a call that fails on an
  unknown key, and a second call with the same two dicts fails on the key that is now in
  both.
\<close>

theorem init_changes_default_hash_hps:
  "init keys_view numpy (Some []) (Some [(''lr'', VInt 1)]) (Some [(''log_dir'', VStr ''/tmp'')]) 10 False =
     (Inr [(''_hash_len'', VInt 10), (''_verbose'', VBool False),
           (''_all_hps_as_dict'', VDict [(''lr'', VInt 1), (''log_dir'', VStr ''/tmp'')]),
           (''_hash_hps_as_dict'', VDict []),
           (''lr'', VInt 1), (''log_dir'', VStr ''/tmp'')],
      (Some [(''lr'', VInt 1), (''log_dir'', VStr ''/tmp'')], Some [(''log_dir'', VStr ''/tmp'')])) \<and>
   init keys_view numpy (Some [(''depht'', VInt 5)]) (Some [(''depth'', VInt 3)])
       (Some [(''log_dir'', VStr ''/tmp'')]) 10 False =
     (Inl (ValueError ''depht is not a valid hyperparameter (has no specified default).''),
      (Some [(''depth'', VInt 3), (''log_dir'', VStr ''/tmp'')], Some [(''log_dir'', VStr ''/tmp'')])) \<and>
   fst (init keys_view numpy (Some []) (Some [(''lr'', VInt 1), (''log_dir'', VStr ''/tmp'')])
       (Some [(''log_dir'', VStr ''/tmp'')]) 10 False) =
     Inl (ValueError ''Hyperparameter [log_dir] cannot be both hash and non-hash.'')"
  by (simp add: init_eval)

text \<open>
  Claim C1. An override that differs from the default array in one element, but not in
  all, is not put into the dict of hyperparameters to hash: \<^verbatim>\<open>np.all\<close> asks that every
  element differs. So it is for the override \<^verbatim>\<open>64\<close> and for the override \<^verbatim>\<open>np.array([64])\<close>
  of the default \<^verbatim>\<open>np.array([64, 32])\<close>, with every version of Python and \<^verbatim>\<open>numpy\<close>: the
  effective value is the override, and the dict to hash is empty.
\<close>

theorem parse_array_override_not_hashed:
  "fst (parse keys_view numpy (Some [(''layers'', VInt 64)])
         (Some [(''layers'', VArr [64, 32])]) (Some [])) =
     Inr ([(''layers'', VInt 64)], []) \<and>
   fst (parse keys_view numpy (Some [(''layers'', VArr [64])])
         (Some [(''layers'', VArr [64, 32])]) (Some [])) =
     Inr ([(''layers'', VArr [64])], [])"
  by (simp add: init_eval)

text \<open>
  Where \<^verbatim>\<open>default_hash_hps.keys()\<close> is a view (Python 3) it shows the non-hash keys as well
  once \<^verbatim>\<open>default_hps\<close> has been updated, and an overridden non-hash hyperparameter is
  hashed; where it is a list (Python 2) it is not.
\<close>

lemma parse_keys_view_non_hash_key:
  "fst (parse True numpy (Some [(''log_dir'', VStr ''/x'')]) (Some [(''lr'', VInt 1)])
         (Some [(''log_dir'', VStr ''/tmp'')])) =
     Inr ([(''lr'', VInt 1), (''log_dir'', VStr ''/x'')], [(''log_dir'', VStr ''/x'')])"
  "fst (parse False numpy (Some [(''log_dir'', VStr ''/x'')]) (Some [(''lr'', VInt 1)])
         (Some [(''log_dir'', VStr ''/tmp'')])) =
     Inr ([(''lr'', VInt 1), (''log_dir'', VStr ''/x'')], [])"
  by (simp_all add: init_eval)

section \<open>The canonical string\<close>

lemma sort_mset_eq: "mset xs = mset ys \<Longrightarrow> sort xs = sort (ys :: 'a :: linorder list)"
  by (metis properties_for_sort sorted_sort mset_sort)

lemma numpy_sort_same_keys:
  assumes "distinct (map fst d)" "distinct (map fst e)" "set (map fst d) = set (map fst e)"
  shows "numpy_sort (dict_keys d) = numpy_sort (dict_keys e)"
proof -
  from assms have "mset (map fst d) = mset (map fst e)"
    by (metis set_eq_iff_mset_eq_distinct)
  then have "mset (map numpy_str (map fst d)) = mset (map numpy_str (map fst e))"
    by (metis mset_map)
  then show ?thesis unfolding numpy_sort_def dict_keys_def by (rule sort_mset_eq)
qed

lemma same_content_lookup:
  assumes "distinct (map fst d)" "same_content (VDict d) (VDict e)" "map_of d key = Some v"
  shows "\<exists>w. map_of e key = Some w \<and> same_content v w"
proof -
  from assms(3) have "(key, v) \<in> set d" by (rule map_of_SomeD)
  with assms(2) show ?thesis by (auto simp: list_all_iff split: option.splits)
qed

lemma same_content_lookup_None:
  assumes "same_content (VDict d) (VDict e)" "map_of d key = None"
  shows "map_of e key = None"
  using assms by (simp add: map_of_eq_None_iff)

lemma wf_val_lookup: "wf_val (VDict d) \<Longrightarrow> map_of d key = Some v \<Longrightarrow> wf_val v"
  by (auto simp: list_all_iff dest!: map_of_SomeD)

lemma same_content_dict_cases:
  "same_content (VDict sub) w \<Longrightarrow> \<exists>sub'. w = VDict sub'"
  by (cases w) auto

lemma same_content_leaf: "\<not> is_dict v \<Longrightarrow> same_content v w \<Longrightarrow> w = v"
  by (cases v; cases w) auto

lemma sorted_str_same_content:
  "wf_val (VDict d) \<Longrightarrow> wf_val (VDict e) \<Longrightarrow> same_content (VDict d) (VDict e) \<Longrightarrow>
   sorted_str_from_dict array_str d = sorted_str_from_dict array_str e"
proof (induction "size (VDict d)" arbitrary: d e rule: less_induct)
  case less
  note wfd = \<open>wf_val (VDict d)\<close> and wfe = \<open>wf_val (VDict e)\<close>
    and sc = \<open>same_content (VDict d) (VDict e)\<close>
  from wfd wfe have dd: "distinct (map fst d)" and de: "distinct (map fst e)" by simp_all
  from sc have ks: "set (map fst d) = set (map fst e)" by simp
  have keys: "numpy_sort (dict_keys d) = numpy_sort (dict_keys e)"
    by (rule numpy_sort_same_keys[OF dd de ks])
  define str_val :: "pyval \<Rightarrow> error + string" where
    "str_val = (\<lambda>val. case val of
                          VDict sub \<Rightarrow> sorted_str_from_dict array_str sub
                        | VNone \<Rightarrow> Inr ''None''
                        | VBool b \<Rightarrow> Inr (if b then ''True'' else ''False'')
                        | VInt i \<Rightarrow> Inr (str_int i)
                        | VStr s \<Rightarrow> Inr s
                        | VArr xs \<Rightarrow> Inr (array_str xs))"
  have entry: "(case dict_get d key of None \<Rightarrow> Inl (KeyError key) | Some val \<Rightarrow> f (str_val val)) =
      (case dict_get e key of None \<Rightarrow> Inl (KeyError key) | Some val \<Rightarrow> f (str_val val))"
    for key and f :: "error + string \<Rightarrow> error + string"
  proof (cases "map_of d key")
    case None
    with same_content_lookup_None[OF sc] show ?thesis by (simp add: dict_get_def)
  next
    case (Some v)
    from same_content_lookup[OF dd sc Some] obtain w where
      w: "map_of e key = Some w" and vw: "same_content v w" by blast
    have "str_val v = str_val w"
    proof (cases "is_dict v")
      case False
      from same_content_leaf[OF False vw] have "w = v" .
      then show ?thesis by simp
    next
      case True
      then obtain sub where v: "v = VDict sub" by (cases v) auto
      with vw obtain sub' where w': "w = VDict sub'" using same_content_dict_cases by blast
      have "size (VDict sub) < size (VDict d)"
        using Some v size_dict_get[of d key v] by (simp add: dict_get_def)
      moreover have "wf_val (VDict sub)" using wf_val_lookup[OF wfd Some] v by simp
      moreover have "wf_val (VDict sub')" using wf_val_lookup[OF wfe w] w' by simp
      ultimately have "sorted_str_from_dict array_str sub = sorted_str_from_dict array_str sub'"
        using less.hyps vw v w' by blast
      then show ?thesis by (simp add: str_val_def v w')
    qed
    with Some w show ?thesis by (simp add: dict_get_def)
  qed
  define wrap :: "nat \<Rightarrow> string \<Rightarrow> nat \<Rightarrow> error + string \<Rightarrow> error + string" where
    "wrap = (\<lambda>key_idx key n_keys r. case r of
                Inl e \<Rightarrow> Inl e
              | Inr str_val \<Rightarrow>
                  Inr (key @ '': '' @ str_val @ (if key_idx < n_keys then '', '' else [])))"
  have unfold: "sorted_str_from_dict array_str x =
      (case join_items (map (\<lambda>(key_idx, key).
             case dict_get x key of
               None \<Rightarrow> Inl (KeyError key)
             | Some val \<Rightarrow> wrap key_idx key (length (numpy_sort (dict_keys x))) (str_val val))
           (zip [1..<Suc (length (numpy_sort (dict_keys x)))] (numpy_sort (dict_keys x)))) of
           Inl e \<Rightarrow> Inl e
         | Inr items \<Rightarrow> Inr (''{'' @ items @ ''}''))" for x
    by (subst sorted_str_from_dict.simps) (simp only: Let_def str_val_def wrap_def)
  have "map (\<lambda>(key_idx, key).
             case dict_get d key of
               None \<Rightarrow> Inl (KeyError key)
             | Some val \<Rightarrow> wrap key_idx key (length (numpy_sort (dict_keys e))) (str_val val))
           (zip [1..<Suc (length (numpy_sort (dict_keys e)))] (numpy_sort (dict_keys e))) =
        map (\<lambda>(key_idx, key).
             case dict_get e key of
               None \<Rightarrow> Inl (KeyError key)
             | Some val \<Rightarrow> wrap key_idx key (length (numpy_sort (dict_keys e))) (str_val val))
           (zip [1..<Suc (length (numpy_sort (dict_keys e)))] (numpy_sort (dict_keys e)))"
    by (rule map_cong[OF refl]) (auto simp: entry)
  then show ?case
    unfolding unfold[of d] unfold[of e] keys by (simp only:)
qed

text \<open>
  Claim C2. Two dicts with the same content (the same keys with the same content under
  each key, at every level, in whatever order the keys were inserted) have the same
  canonical string, and so the same SHA-512 digest: the result of
  \<^verbatim>\<open>_sorted_str_from_dict\<close> and of \<^verbatim>\<open>_generate_hash\<close> is the same string, or the same
  exception.
\<close>

theorem sorted_str_from_dict_order_independent:
  "wf_val (VDict d) \<and> wf_val (VDict e) \<and> same_content (VDict d) (VDict e) \<longrightarrow>
     sorted_str_from_dict array_str d = sorted_str_from_dict array_str e \<and>
     generate_hash array_str python3 self (VDict d) = generate_hash array_str python3 self (VDict e)"
  using sorted_str_same_content[of d e array_str]
  by (simp add: generate_hash_def call_sorted_str_from_dict_def)

theorem sorted_str_from_dict_order_independent_witness:
  "sorted_str_from_dict short_array_str
       [(''lr'', VInt 1), (''net'', VDict [(''units'', VArr [64, 32]), (''bias'', VBool True)])] =
     sorted_str_from_dict short_array_str
       [(''net'', VDict [(''bias'', VBool True), (''units'', VArr [64, 32])]), (''lr'', VInt 1)] \<and>
   generate_hash short_array_str True []
       (VDict [(''lr'', VInt 1),
               (''net'', VDict [(''units'', VArr [64, 32]), (''bias'', VBool True)])]) =
     generate_hash short_array_str True []
       (VDict [(''net'', VDict [(''bias'', VBool True), (''units'', VArr [64, 32])]),
               (''lr'', VInt 1)])"
  using sorted_str_from_dict_order_independent
    [of "[(''lr'', VInt 1), (''net'', VDict [(''units'', VArr [64, 32]), (''bias'', VBool True)])]"
        "[(''net'', VDict [(''bias'', VBool True), (''units'', VArr [64, 32])]), (''lr'', VInt 1)]"
        short_array_str True "[]"]
  by (simp add: insert_commute)

section \<open>The hash\<close>

lemma dict_get_setitem:
  "dict_get (dict_setitem d k v) name = (if name = k then Some v else dict_get d name)"
  by (simp add: dict_get_def map_of_setitem)

lemma dict_contains_setitem:
  "dict_contains (dict_setitem d k v) name \<longleftrightarrow> name = k \<or> dict_contains d name"
  using keys_setitem[of d k v] by (auto simp: dict_contains_def)

lemma dict_contains_get: "dict_contains d name \<longleftrightarrow> dict_get d name \<noteq> None"
  by (simp add: dict_contains_def dict_get_def map_of_eq_None_iff)


lemma get_hash_own:
  assumes "\<forall>name \<in> set own_names. dict_get self name = dict_get self0 name"
  shows "get_hash array_str python3 self = get_hash array_str python3 self0"
proof -
  from assms have eqs: "dict_get self ''get_hash'' = dict_get self0 ''get_hash''"
    "dict_get self ''_generate_hash'' = dict_get self0 ''_generate_hash''"
    "dict_get self ''_sorted_str_from_dict'' = dict_get self0 ''_sorted_str_from_dict''"
    "dict_get self ''_hash_hps_as_dict'' = dict_get self0 ''_hash_hps_as_dict''"
    "dict_get self ''_hash_len'' = dict_get self0 ''_hash_len''"
    by (simp_all add: own_names_def)
  have g: "generate_hash array_str python3 self h = generate_hash array_str python3 self0 h" for h
    by (simp add: generate_hash_def call_sorted_str_from_dict_def dict_contains_get eqs(3))
  show ?thesis
    unfolding get_hash_def dict_contains_get g eqs by (rule refl)
qed

lemma slice_to_int:
  "0 \<le> n \<Longrightarrow> slice_to s (VInt n) = Inr (take (nat n) s)"
  by simp


lemma sorted_str_empty: "sorted_str_from_dict array_str [] = Inr ''{}''"
  by (subst sorted_str_from_dict.simps) (simp add: numpy_sort_def dict_keys_def)

lemmas hash_eval = init_get_hash_def init_eval get_hash_def generate_hash_def
  call_sorted_str_from_dict_def sorted_str_empty encode_utf8_def



lemma setitem_append:
  "dict_setitem (a @ b) key val =
     (if dict_contains a key then dict_setitem a key val @ b else a @ dict_setitem b key val)"
  by (induction a) (force simp: dict_contains_def)+

lemma inserted_setitem:
  assumes "inserted k v x y" "key \<noteq> k"
  shows "inserted k v (dict_setitem x key val) (dict_setitem y key val)"
proof -
  from assms(1) obtain a b where x: "x = a @ b" and y: "y = a @ (k, v) # b"
    and a: "\<not> dict_contains a k" and b: "\<not> dict_contains b k"
    unfolding inserted_def by blast
  show ?thesis
  proof (cases "dict_contains a key")
    case True
    then have "dict_setitem x key val = dict_setitem a key val @ b"
      "dict_setitem y key val = dict_setitem a key val @ (k, v) # b"
      unfolding x y by (simp_all add: setitem_append)
    moreover have "\<not> dict_contains (dict_setitem a key val) k"
      using a assms(2) by (simp add: dict_contains_setitem)
    ultimately show ?thesis unfolding inserted_def using b by blast
  next
    case False
    then have "dict_setitem x key val = a @ dict_setitem b key val"
      "dict_setitem y key val = a @ (k, v) # dict_setitem b key val"
      unfolding x y using assms(2) by (simp_all add: setitem_append)
    moreover have "\<not> dict_contains (dict_setitem b key val) k"
      using b assms(2) by (simp add: dict_contains_setitem)
    ultimately show ?thesis unfolding inserted_def using a by blast
  qed
qed

lemma inserted_update:
  "inserted k v x y \<Longrightarrow> \<not> dict_contains e k \<Longrightarrow> inserted k v (dict_update x e) (dict_update y e)"
proof (induction e arbitrary: x y)
  case Nil
  then show ?case by simp
next
  case (Cons item e)
  obtain key val where item: "item = (key, val)" by (cases item)
  from Cons.prems(2) have "key \<noteq> k" "\<not> dict_contains e k"
    by (auto simp: item dict_contains_def)
  with Cons.IH[OF inserted_setitem[OF Cons.prems(1), of key val]] show ?case
    by (simp add: item)
qed

lemma inserted_get: "inserted k v x y \<Longrightarrow> key \<noteq> k \<Longrightarrow> dict_get y key = dict_get x key"
  unfolding inserted_def dict_get_def by (auto simp: map_add_def split: option.splits)

lemma inserted_keys:
  "inserted k v x y \<Longrightarrow> key \<noteq> k \<Longrightarrow> key \<in> set (dict_keys y) \<longleftrightarrow> key \<in> set (dict_keys x)"
  unfolding inserted_def dict_keys_def by auto

lemma parse_loop_inserted:
  assumes d: "inserted k v default_hps default_hps'"
    and hk: "\<And>key. key \<noteq> k \<Longrightarrow> key \<in> set hash_keys' \<longleftrightarrow> key \<in> set hash_keys"
  shows "inserted k v hps hps' \<Longrightarrow> \<not> dict_contains items k \<Longrightarrow>
    rel_sum (=) (\<lambda>(h, hh) (h', hh'). inserted k v h h' \<and> hh' = hh)
      (parse_loop numpy hash_keys default_hps items hps hps_to_hash)
      (parse_loop numpy hash_keys' default_hps' items hps' hps_to_hash)"
proof (induction items arbitrary: hps hps' hps_to_hash)
  case Nil
  then show ?case by simp
next
  case (Cons item items)
  obtain key input_val where item: "item = (key, input_val)" by (cases item)
  from Cons.prems(2) have ne: "key \<noteq> k" and rest: "\<not> dict_contains items k"
    by (auto simp: item dict_contains_def)
  note g = inserted_get[OF d ne]
  note m = hk[OF ne]
  note step = Cons.IH[OF inserted_setitem[OF Cons.prems(1) ne] rest]
  show ?case
    unfolding item parse_loop.simps g m Let_def
    by (auto split: sum.splits option.splits intro!: step)
qed

lemma setattr_loop_append:
  "setattr_loop (a @ b) self =
     (case setattr_loop a self of Inl e \<Rightarrow> Inl e | Inr s \<Rightarrow> setattr_loop b s)"
  by (induction a arbitrary: self) (auto split: sum.splits)

lemma agree_off_setitem:
  "agree_off k self self' \<Longrightarrow>
   agree_off k (dict_setitem self key val) (dict_setitem self' key val)"
  by (simp add: agree_off_def dict_get_setitem)

lemma agree_off_setitem_k:
  "agree_off k self self' \<Longrightarrow> agree_off k self (dict_setitem self' k v)"
  by (simp add: agree_off_def dict_get_setitem)

lemma setattr_loop_agree:
  "agree_off k self self' \<Longrightarrow>
   rel_sum (=) (agree_off k) (setattr_loop items self) (setattr_loop items self')"
proof (induction items arbitrary: self self')
  case Nil
  then show ?case by simp
next
  case (Cons item items)
  obtain key val where item: "item = (key, val)" by (cases item)
  from Cons.IH[OF agree_off_setitem[OF Cons.prems, of key val]] show ?case
    by (simp add: item setattr_def)
qed

lemma setattr_loop_inserted:
  assumes "inserted k v x y" "agree_off k self self'" "k \<noteq> ''__class__''" "k \<noteq> ''__weakref__''"
  shows "rel_sum (=) (agree_off k) (setattr_loop x self) (setattr_loop y self')"
proof -
  from assms(1) obtain a b where x: "x = a @ b" and y: "y = a @ (k, v) # b"
    unfolding inserted_def by blast
  have ra: "rel_sum (=) (agree_off k) (setattr_loop a self) (setattr_loop a self')"
    by (rule setattr_loop_agree[OF assms(2)])
  show ?thesis
  proof (cases "setattr_loop a self")
    case (Inl e)
    with ra have "setattr_loop a self' = Inl e" by (cases "setattr_loop a self'") auto
    with Inl show ?thesis unfolding x y by (simp add: setattr_loop_append)
  next
    case (Inr s)
    with ra obtain s' where s': "setattr_loop a self' = Inr s'" and ag: "agree_off k s s'"
      by (cases "setattr_loop a self'") auto
    from setattr_loop_agree[OF agree_off_setitem_k[OF ag, of v], of b]
    show ?thesis unfolding x y using Inr s' assms(3,4)
      by (simp add: setattr_loop_append setattr_def)
  qed
qed

lemma get_hash_agree:
  assumes "agree_off k self self'" "k \<notin> set own_names"
  shows "get_hash array_str python3 self' = get_hash array_str python3 self"
proof (rule get_hash_own)
  show "\<forall>name \<in> set own_names. dict_get self' name = dict_get self name"
    using assms unfolding agree_off_def own_names_def by auto
qed

lemma find_contains_append:
  "\<not> dict_contains dn k \<Longrightarrow>
   find (dict_contains (dh @ [(k, v)])) (dict_keys dn) = find (dict_contains dh) (dict_keys dn)"
  by (rule find_cong) (auto simp: dict_contains_def dict_keys_def)

lemma setitem_fresh: "\<not> dict_contains d k \<Longrightarrow> dict_setitem d k v = d @ [(k, v)]"
  by (induction d) (auto simp: dict_contains_def)

text \<open>
  Claim C3, as amended. A new hashed default \<open>k\<close> that no override touches, and whose name
  is not reserved, does not change what the constructor followed by \<^verbatim>\<open>get_hash\<close> gives
  (the same hash, or the same exception).
\<close>

theorem get_hash_new_default:
  assumes fresh: "\<not> dict_contains default_hash_hps k" "\<not> dict_contains default_non_hash_hps k"
    and over: "set (dict_keys hps) \<subseteq> set (dict_keys default_hash_hps) \<union> set (dict_keys default_non_hash_hps)"
    and res: "k \<notin> set reserved_names"
  shows "init_get_hash array_str keys_view numpy (Some hps)
           (Some (dict_setitem default_hash_hps k v)) (Some default_non_hash_hps) hash_len verbose =
         init_get_hash array_str keys_view numpy (Some hps)
           (Some default_hash_hps) (Some default_non_hash_hps) hash_len verbose"
proof (cases "find (dict_contains default_hash_hps) (dict_keys default_non_hash_hps)")
  case (Some non_hash_key)
  then show ?thesis
    using fresh
    by (simp add: init_get_hash_def init_def parse_def setitem_fresh find_contains_append)
next
  case None
  let ?dh' = "default_hash_hps @ [(k, v)]"
  let ?d = "dict_update default_hash_hps default_non_hash_hps"
  let ?d' = "dict_update ?dh' default_non_hash_hps"
  let ?hk = "if keys_view then dict_keys ?d else dict_keys default_hash_hps"
  let ?hk' = "if keys_view then dict_keys ?d' else dict_keys ?dh'"
  have i0: "inserted k v default_hash_hps ?dh'"
    unfolding inserted_def using fresh(1)
    by (intro exI[of _ default_hash_hps] exI[of _ "[]"]) (simp add: dict_contains_def)
  have i1: "inserted k v ?d ?d'" by (rule inserted_update[OF i0 fresh(2)])
  have hk: "key \<in> set ?hk' \<longleftrightarrow> key \<in> set ?hk" if "key \<noteq> k" for key
    using inserted_keys[OF i1 that] inserted_keys[OF i0 that] by simp
  have nk: "\<not> dict_contains hps k"
    using over fresh by (auto simp: dict_contains_def dict_keys_def)
  have pl: "rel_sum (=) (\<lambda>(h, hh) (h', hh'). inserted k v h h' \<and> hh' = hh)
      (parse_loop numpy ?hk ?d hps ?d [])
      (parse_loop numpy ?hk' ?d' hps ?d' [])"
    by (rule parse_loop_inserted[OF i1 hk i1 nk])
  have r: "k \<noteq> ''__class__''" "k \<noteq> ''__weakref__''" "k \<notin> set own_names"
    using res by (auto simp: reserved_names_def)
  show ?thesis
  proof (cases "parse_loop numpy ?hk ?d hps ?d []")
    case (Inl e)
    with pl have "parse_loop numpy ?hk' ?d' hps ?d' [] = Inl e"
      by (cases "parse_loop numpy ?hk' ?d' hps ?d' []") auto
    with Inl None show ?thesis
      using fresh
      by (simp add: init_get_hash_def init_def parse_def setitem_fresh find_contains_append Let_def)
  next
    case (Inr res)
    obtain h hh where res: "res = (h, hh)" by (cases res)
    with Inr pl obtain h' where p': "parse_loop numpy ?hk' ?d' hps ?d' [] = Inr (h', hh)"
      and ih: "inserted k v h h'"
      by (cases "parse_loop numpy ?hk' ?d' hps ?d' []") auto
    let ?s = "[(''_hash_len'', VInt hash_len), (''_verbose'', VBool verbose),
                 (''_all_hps_as_dict'', VDict h), (''_hash_hps_as_dict'', VDict hh)]"
    let ?s' = "[(''_hash_len'', VInt hash_len), (''_verbose'', VBool verbose),
                 (''_all_hps_as_dict'', VDict h'), (''_hash_hps_as_dict'', VDict hh)]"
    have ag: "agree_off k ?s ?s'" by (simp add: agree_off_def dict_get_def)
    have sl: "rel_sum (=) (agree_off k) (setattr_loop h ?s) (setattr_loop h' ?s')"
      by (rule setattr_loop_inserted[OF ih ag r(1,2)])
    have "(case setattr_loop h' ?s' of Inl e \<Rightarrow> Inl e | Inr self \<Rightarrow> get_hash array_str keys_view self) =
          (case setattr_loop h ?s of Inl e \<Rightarrow> Inl e | Inr self \<Rightarrow> get_hash array_str keys_view self)"
      using sl get_hash_agree[OF _ r(3)]
      by (cases "setattr_loop h ?s"; cases "setattr_loop h' ?s'") auto
    with Inr res p' None show ?thesis
      using fresh
      by (simp add: init_get_hash_def init_def parse_def setitem_fresh find_contains_append Let_def)
  qed
qed

text \<open>
  The claim as it was stated fails for each of the reserved names. A new default named
  \<^verbatim>\<open>_hash_len\<close> changes the hash: \<^verbatim>\<open>setattr\<close> puts its value in the place of the length
  of the hash, which has 3 characters where it had 10. A new default with one of the
  other names makes \<^verbatim>\<open>get_hash\<close>, or the constructor, raise.
\<close>

theorem get_hash_new_default_counterexample:
  "init_get_hash short_array_str True (1, 26) (Some []) (Some [(''lr'', VInt 1)]) (Some []) 10 False =
     Inr (take 10 (sha512_hexdigest ''{}'')) \<and>
   init_get_hash short_array_str True (1, 26) (Some [])
      (Some (dict_setitem [(''lr'', VInt 1)] ''_hash_len'' (VInt 3))) (Some []) 10 False =
     Inr (take 3 (sha512_hexdigest ''{}'')) \<and>
   take 3 (sha512_hexdigest ''{}'') \<noteq> take 10 (sha512_hexdigest ''{}'') \<and>
   init_get_hash short_array_str True (1, 26) (Some [])
      (Some (dict_setitem [(''lr'', VInt 1)] ''_hash_hps_as_dict'' (VInt 3))) (Some []) 10 False =
     Inl AttributeError \<and>
   init_get_hash short_array_str True (1, 26) (Some [])
      (Some (dict_setitem [(''lr'', VInt 1)] ''get_hash'' (VInt 3))) (Some []) 10 False =
     Inl TypeError \<and>
   init_get_hash short_array_str True (1, 26) (Some [])
      (Some (dict_setitem [(''lr'', VInt 1)] ''_generate_hash'' (VInt 3))) (Some []) 10 False =
     Inl TypeError \<and>
   init_get_hash short_array_str True (1, 26) (Some [])
      (Some (dict_setitem [(''lr'', VInt 1)] ''_sorted_str_from_dict'' (VInt 3))) (Some []) 10 False =
     Inl TypeError \<and>
   init_get_hash short_array_str True (1, 26) (Some [])
      (Some (dict_setitem [(''lr'', VInt 1)] ''__class__'' (VInt 3))) (Some []) 10 False =
     Inl TypeError \<and>
   init_get_hash short_array_str True (1, 26) (Some [])
      (Some (dict_setitem [(''lr'', VInt 1)] ''__weakref__'' (VInt 3))) (Some []) 10 False =
     Inl AttributeError"
proof -
  have "length (take 3 (sha512_hexdigest ''{}'')) \<noteq> length (take 10 (sha512_hexdigest ''{}''))"
    by (simp add: length_sha512_hexdigest)
  then have "take 3 (sha512_hexdigest ''{}'') \<noteq> take 10 (sha512_hexdigest ''{}'')"
    by metis
  then show ?thesis
    by (simp add: hash_eval)
qed

theorem get_hash_new_default_witness:
  "init_get_hash short_array_str True (1, 26) (Some [(''depth'', VInt 5)])
      (Some (dict_setitem [(''lr'', VInt 1), (''depth'', VInt 3)] ''momentum'' (VInt 0)))
      (Some [(''log_dir'', VStr ''/tmp'')]) 10 False =
   init_get_hash short_array_str True (1, 26) (Some [(''depth'', VInt 5)])
      (Some [(''lr'', VInt 1), (''depth'', VInt 3)])
      (Some [(''log_dir'', VStr ''/tmp'')]) 10 False"
  by (rule get_hash_new_default)
    (simp_all add: dict_contains_def dict_keys_def reserved_names_def own_names_def)

end
